theory Spec2Isabelle
  imports Complex_Main
begin

section \<open>Jubblution: the per-frame agent simulation of jubbles.py\<close>

text \<open>
  The source is a Python 2 program (it uses \<^verbatim>\<open>xrange\<close> and \<^verbatim>\<open>__cmp__\<close>).
  Python floats are modelled as HOL reals (exact arithmetic), Python ints as \<open>int\<close>.
  Objects live in an explicit store: an address is a natural number, the store maps every
  address to the fields of the jubble stored there, and a Python list of jubbles is a list of
  addresses. A reference to another jubble (\<^verbatim>\<open>goal_jubble\<close>) is an address.
  Every raise of the source is an \<open>Inl\<close> branch of the model. The pygame calls
  (\<^verbatim>\<open>erase\<close>, \<^verbatim>\<open>draw\<close>) are rendering and are not modelled. The fields
  \<^verbatim>\<open>x\<close>, \<^verbatim>\<open>y\<close> and \<^verbatim>\<open>id\<close> are named \<open>pos_x\<close>,
  \<open>pos_y\<close> and \<open>ident\<close>.
\<close>

subsection \<open>Constants\<close>

definition SCREEN_SIZE :: "real \<times> real" where
  "SCREEN_SIZE = (640, 480)"

definition EDGE_AVOIDANCE :: real where
  "EDGE_AVOIDANCE = 30"

definition HORIZONTAL_RANGE :: "real \<times> real" where
  "HORIZONTAL_RANGE = (EDGE_AVOIDANCE, fst SCREEN_SIZE - EDGE_AVOIDANCE)"

definition VERTICAL_RANGE :: "real \<times> real" where
  "VERTICAL_RANGE = (EDGE_AVOIDANCE, snd SCREEN_SIZE - EDGE_AVOIDANCE)"

definition DEF_ANGLE :: real where
  "DEF_ANGLE = 0"

definition DEF_SPEED :: real where
  "DEF_SPEED = 1"

definition DEF_DETECTION_RADIUS :: real where
  "DEF_DETECTION_RADIUS = 150"

definition DEF_DETECTION_SLICE :: real where
  "DEF_DETECTION_SLICE = pi / 2"

definition MATURE_AGE :: real where
  "MATURE_AGE = 600"

definition DEATH_AGE :: real where
  "DEATH_AGE = 3000"

definition TIME_TAKEN_TO_DECOMPOSE :: real where
  "TIME_TAKEN_TO_DECOMPOSE = 300"

definition BIRTH_SIZE :: real where
  "BIRTH_SIZE = 5"

definition MATURE_SIZE :: real where
  "MATURE_SIZE = 15"

definition TURN_ANGLE :: real where
  "TURN_ANGLE = pi / 7"

definition CHANCE_OF_TURN :: real where
  "CHANCE_OF_TURN = 1 / 10"

definition ANGLE_RIGHT :: real where
  "ANGLE_RIGHT = 0"

definition ANGLE_UP :: real where
  "ANGLE_UP = pi * (3 / 2)"

definition ANGLE_LEFT :: real where
  "ANGLE_LEFT = pi"

definition ANGLE_DOWN :: real where
  "ANGLE_DOWN = pi / 2"

subsection \<open>Geometry\<close>

text \<open>\<^verbatim>\<open>math.hypot\<close> and \<^verbatim>\<open>math.atan2\<close> of the Python library, on reals:
  \<open>atan2 y x\<close> is the angle of the point \<open>(x, y)\<close> in \<open>(-pi, pi]\<close>, and \<open>0\<close> at the origin.\<close>

definition hypot :: "real \<Rightarrow> real \<Rightarrow> real" where
  "hypot a b = sqrt (a\<^sup>2 + b\<^sup>2)"

definition atan2 :: "real \<Rightarrow> real \<Rightarrow> real" where
  "atan2 b a =
     (if 0 < a then arctan (b / a)
      else if a < 0 \<and> 0 \<le> b then arctan (b / a) + pi
      else if a < 0 then arctan (b / a) - pi
      else if 0 < b then pi / 2
      else if b < 0 then - (pi / 2)
      else 0)"

definition dist_pt :: "real \<times> real \<Rightarrow> real \<times> real \<Rightarrow> real" where
  "dist_pt a b = hypot (fst a - fst b) (snd a - snd b)"

definition to_polar :: "real \<Rightarrow> real \<Rightarrow> real \<times> real" where
  "to_polar a b = (atan2 b a, hypot a b)"

definition to_cartesian :: "real \<Rightarrow> real \<Rightarrow> real \<times> real" where
  "to_cartesian ang magnitude = (magnitude * cos ang, magnitude * sin ang)"

definition circles_are_touching :: "real \<times> real \<Rightarrow> real \<times> real \<Rightarrow> real \<Rightarrow> real \<Rightarrow> bool" where
  "circles_are_touching centre1 centre2 radius1 radius2 \<longleftrightarrow>
     dist_pt centre1 centre2 \<le> radius1 + radius2"

subsection \<open>The jubble\<close>

datatype error = TypeError | AttributeError | AssertionError

type_synonym addr = nat

record jubble =
  ident :: int
  pos_x :: real
  pos_y :: real
  colour :: "int \<times> int \<times> int"
  angle :: real
  speed :: real
  detection_radius :: real
  age :: int
  is_alive :: bool
  age_of_death :: "int option"
  has_coord_goal :: bool
  has_jubble_goal :: bool
  goal_x :: "real option"
  goal_y :: "real option"
  goal_jubble :: "addr option"

type_synonym store = "addr \<Rightarrow> jubble"

text \<open>\<^verbatim>\<open>Jubble.__init__\<close>: the random identifier, position and colour are arguments.\<close>

definition new_jubble :: "int \<Rightarrow> real \<Rightarrow> real \<Rightarrow> int \<times> int \<times> int \<Rightarrow> jubble" where
  "new_jubble i px py col =
     \<lparr> ident = i, pos_x = px, pos_y = py, colour = col,
       angle = DEF_ANGLE, speed = DEF_SPEED, detection_radius = DEF_DETECTION_RADIUS,
       age = 0, is_alive = True, age_of_death = None,
       has_coord_goal = False, has_jubble_goal = False,
       goal_x = None, goal_y = None, goal_jubble = None \<rparr>"

definition get_pos :: "jubble \<Rightarrow> real \<times> real" where
  "get_pos j = (pos_x j, pos_y j)"

definition kill :: "jubble \<Rightarrow> jubble" where
  "kill j = j\<lparr> is_alive := False, age_of_death := Some (age j) \<rparr>"

definition get_older :: "jubble \<Rightarrow> jubble" where
  "get_older j =
     (let j1 = j\<lparr> age := age j + 1 \<rparr>
      in if DEATH_AGE \<le> real_of_int (age j1) \<and> is_alive j1 then kill j1 else j1)"

definition set_coord_goal :: "jubble \<Rightarrow> real \<Rightarrow> real \<Rightarrow> jubble" where
  "set_coord_goal j gx gy =
     (if (fst HORIZONTAL_RANGE \<le> gx \<and> gx \<le> snd HORIZONTAL_RANGE) \<and>
         (fst VERTICAL_RANGE \<le> gy \<and> gy \<le> snd VERTICAL_RANGE)
      then j\<lparr> has_coord_goal := True, goal_x := Some gx, goal_y := Some gy \<rparr>
      else j)"

definition set_jubble_goal :: "jubble \<Rightarrow> addr \<Rightarrow> jubble" where
  "set_jubble_goal j gj = j\<lparr> has_jubble_goal := True, goal_jubble := Some gj \<rparr>"

definition coord_in_range :: "jubble \<Rightarrow> real \<Rightarrow> real \<Rightarrow> bool" where
  "coord_in_range j ox oy \<longleftrightarrow> dist_pt (get_pos j) (ox, oy) \<le> detection_radius j"

definition can_detect_coord :: "jubble \<Rightarrow> real \<Rightarrow> real \<Rightarrow> bool" where
  "can_detect_coord j ox oy =
     (let left_edge = angle j - DEF_DETECTION_SLICE / 2;
          right_edge = angle j + DEF_DETECTION_SLICE / 2;
          angle_of_self_to_point = fst (to_polar (ox - pos_x j) (oy - pos_y j))
      in coord_in_range j ox oy \<and>
         left_edge \<le> angle_of_self_to_point \<and> angle_of_self_to_point \<le> right_edge)"

definition can_detect_jubble :: "jubble \<Rightarrow> jubble \<Rightarrow> bool" where
  "can_detect_jubble j other = can_detect_coord j (fst (get_pos other)) (snd (get_pos other))"

definition can_chase_jubble :: "jubble \<Rightarrow> jubble \<Rightarrow> bool" where
  "can_chase_jubble j other = coord_in_range j (fst (get_pos other)) (snd (get_pos other))"

definition will_fight_with_jubble :: "jubble \<Rightarrow> jubble \<Rightarrow> bool" where
  "will_fight_with_jubble j other \<longleftrightarrow> age other \<le> age j"

definition will_win_against_jubble :: "jubble \<Rightarrow> jubble \<Rightarrow> bool" where
  "will_win_against_jubble j other \<longleftrightarrow> age other \<le> age j \<and> can_detect_jubble j other"

text \<open>\<^verbatim>\<open>will_be_drawn\<close>: the subtraction \<^verbatim>\<open>self.age - self.age_of_death\<close> raises
  TypeError when \<^verbatim>\<open>age_of_death\<close> is None; \<^verbatim>\<open>or\<close> evaluates it only for a dead jubble.\<close>

definition will_be_drawn :: "jubble \<Rightarrow> error + bool" where
  "will_be_drawn j =
     (if is_alive j then Inr True
      else case age_of_death j of
             None \<Rightarrow> Inl TypeError
           | Some d \<Rightarrow> Inr (real_of_int (age j - d) < TIME_TAKEN_TO_DECOMPOSE))"

text \<open>\<^verbatim>\<open>get_radius\<close>: in Python 2 the comparison \<^verbatim>\<open>None >= MATURE_AGE\<close> is False and the
  division \<^verbatim>\<open>None / MATURE_AGE\<close> raises TypeError.\<close>

definition radius_of_age :: "real \<Rightarrow> real" where
  "radius_of_age a =
     (let a1 = (if MATURE_AGE \<le> a then MATURE_AGE else a)
      in a1 / MATURE_AGE * (MATURE_SIZE - BIRTH_SIZE) + BIRTH_SIZE)"

definition get_radius :: "jubble \<Rightarrow> error + real" where
  "get_radius j =
     (if is_alive j then Inr (radius_of_age (real_of_int (age j)))
      else case age_of_death j of
             None \<Rightarrow> Inl TypeError
           | Some d \<Rightarrow> Inr (radius_of_age (real_of_int d)))"

text \<open>\<^verbatim>\<open>colliding_with_jubble\<close>: the radii are read only when both jubbles are alive.\<close>

definition colliding_with_jubble :: "jubble \<Rightarrow> jubble \<Rightarrow> error + bool" where
  "colliding_with_jubble j other =
     (if \<not> is_alive j then Inr False
      else if \<not> is_alive other then Inr False
      else case get_radius j of
             Inl e \<Rightarrow> Inl e
           | Inr r1 \<Rightarrow>
               (case get_radius other of
                  Inl e \<Rightarrow> Inl e
                | Inr r2 \<Rightarrow> Inr (circles_are_touching (get_pos j) (get_pos other) r1 r2)))"

definition correct_offmap_drift :: "jubble \<Rightarrow> jubble" where
  "correct_offmap_drift j =
     (let j1 = (if pos_x j \<le> fst HORIZONTAL_RANGE then j\<lparr> angle := ANGLE_RIGHT \<rparr> else j);
          j2 = (if snd HORIZONTAL_RANGE \<le> pos_x j1 then j1\<lparr> angle := ANGLE_LEFT \<rparr> else j1);
          j3 = (if pos_y j2 \<le> fst VERTICAL_RANGE then j2\<lparr> angle := ANGLE_DOWN \<rparr> else j2)
      in if snd VERTICAL_RANGE \<le> pos_y j3 then j3\<lparr> angle := ANGLE_UP \<rparr> else j3)"

definition move_one_unit :: "jubble \<Rightarrow> jubble" where
  "move_one_unit j =
     (let c = to_cartesian (angle j) (speed j)
      in correct_offmap_drift (j\<lparr> pos_x := pos_x j + fst c, pos_y := pos_y j + snd c \<rparr>))"

definition add_random_angle_shift :: "real \<Rightarrow> jubble \<Rightarrow> jubble" where
  "add_random_angle_shift d j = j\<lparr> angle := angle j + d \<rparr>"

text \<open>\<^verbatim>\<open>blueMoon(chance)\<close> is \<^verbatim>\<open>random.random() < chance\<close>; the draw is an argument.\<close>

definition blueMoon :: "real \<Rightarrow> real \<Rightarrow> bool" where
  "blueMoon r chance \<longleftrightarrow> r < chance"

text \<open>\<^verbatim>\<open>_handle_coord_goal\<close>: reading a goal coordinate that is None raises TypeError
  at the subtraction.\<close>

definition handle_coord_goal :: "jubble \<Rightarrow> error + jubble" where
  "handle_coord_goal j =
     (if \<not> has_coord_goal j then Inl AssertionError
      else case (goal_x j, goal_y j) of
             (Some gx, Some gy) \<Rightarrow>
               (let j1 = j\<lparr> angle := fst (to_polar (gx - pos_x j) (gy - pos_y j)) \<rparr>
                in if has_coord_goal j1 \<and> dist_pt (pos_x j1, pos_y j1) (gx, gy) \<le> speed j1
                   then Inr (j1\<lparr> has_coord_goal := False, pos_x := gx, pos_y := gy \<rparr>)
                   else Inr j1)
           | _ \<Rightarrow> Inl TypeError)"

text \<open>\<^verbatim>\<open>_handle_jubble_goal\<close> reads the goal jubble in the store; a None goal raises
  AttributeError at \<^verbatim>\<open>self.goal_jubble.is_alive\<close>.\<close>

definition handle_jubble_goal :: "store \<Rightarrow> jubble \<Rightarrow> error + jubble" where
  "handle_jubble_goal h j =
     (if \<not> has_jubble_goal j then Inl AssertionError
      else case goal_jubble j of
             None \<Rightarrow> Inl AttributeError
           | Some g \<Rightarrow>
               (if is_alive (h g) \<and> can_chase_jubble j (h g)
                then Inr (set_coord_goal j (pos_x (h g)) (pos_y (h g)))
                else Inr (j\<lparr> has_jubble_goal := False \<rparr>)))"

text \<open>\<^verbatim>\<open>update\<close>: \<open>rnd\<close> holds the two random draws the call may consume, the value of
  \<^verbatim>\<open>random.random()\<close> and the value of \<^verbatim>\<open>random.uniform(-TURN_ANGLE, TURN_ANGLE)\<close>.\<close>

definition update :: "store \<Rightarrow> real \<times> real \<Rightarrow> jubble \<Rightarrow> error + jubble" where
  "update h rnd j =
     (if is_alive j then
        (case (if has_jubble_goal j then handle_jubble_goal h j else Inr j) of
           Inl e \<Rightarrow> Inl e
         | Inr j1 \<Rightarrow>
             (case (if has_coord_goal j1 then handle_coord_goal j1
                    else if blueMoon (fst rnd) CHANCE_OF_TURN
                         then Inr (add_random_angle_shift (snd rnd) j1)
                         else Inr j1) of
                Inl e \<Rightarrow> Inl e
              | Inr j2 \<Rightarrow> Inr (get_older (move_one_unit j2))))
      else Inr (get_older j))"

subsection \<open>The population stepper\<close>

text \<open>The fight loop of \<^verbatim>\<open>update_jubbles\<close>. \<open>kill_decision\<close> is the condition of the
  loop body for the jubble \<open>j\<close>: the target to kill, if any. The \<^verbatim>\<open>and\<close> of the source
  evaluates \<^verbatim>\<open>colliding_with_jubble\<close> only when \<^verbatim>\<open>has_jubble_goal\<close> holds, and a None
  goal raises AttributeError at \<^verbatim>\<open>other.is_alive\<close>, which is read only when
  \<^verbatim>\<open>self.is_alive\<close> holds.\<close>

definition kill_decision :: "store \<Rightarrow> jubble \<Rightarrow> error + addr option" where
  "kill_decision h j =
     (if \<not> has_jubble_goal j then Inr None
      else case goal_jubble j of
             None \<Rightarrow> (if is_alive j then Inl AttributeError else Inr None)
           | Some g \<Rightarrow>
               (case colliding_with_jubble j (h g) of
                  Inl e \<Rightarrow> Inl e
                | Inr c \<Rightarrow>
                    if c \<and> will_win_against_jubble j (h g) then Inr (Some g) else Inr None))"

definition fight_step :: "store \<Rightarrow> addr \<Rightarrow> error + store" where
  "fight_step h a =
     (case kill_decision h (h a) of
        Inl e \<Rightarrow> Inl e
      | Inr None \<Rightarrow> Inr h
      | Inr (Some g) \<Rightarrow> Inr (h(g := kill (h g))))"

fun fight_phase :: "store \<Rightarrow> addr list \<Rightarrow> error + store" where
  "fight_phase h [] = Inr h"
| "fight_phase h (a # as) =
     (case fight_step h a of Inl e \<Rightarrow> Inl e | Inr h1 \<Rightarrow> fight_phase h1 as)"

text \<open>The chase-target loops: the body for the index pair \<open>(j, oj)\<close>, the inner loop over
  \<open>oj\<close> and the outer loop over \<open>j\<close>.\<close>

definition assign_step :: "addr list \<Rightarrow> addr list \<Rightarrow> nat \<Rightarrow> nat \<Rightarrow> store \<Rightarrow> store" where
  "assign_step old_jubbles new_jubbles j oj h =
     (if j \<noteq> oj \<and> is_alive (h (old_jubbles ! j)) \<and> is_alive (h (old_jubbles ! oj)) then
        (if \<not> has_jubble_goal (h (old_jubbles ! j)) \<and>
            can_detect_jubble (h (old_jubbles ! j)) (h (old_jubbles ! oj)) \<and>
            will_fight_with_jubble (h (old_jubbles ! j)) (h (old_jubbles ! oj))
         then h(new_jubbles ! j := set_jubble_goal (h (new_jubbles ! j)) (new_jubbles ! oj))
         else h)
      else h)"

definition goal_phase :: "addr list \<Rightarrow> addr list \<Rightarrow> store \<Rightarrow> store" where
  "goal_phase old_jubbles new_jubbles h =
     fold (\<lambda>j. fold (assign_step old_jubbles new_jubbles j) [0..<length old_jubbles])
       [0..<length new_jubbles] h"

text \<open>The list comprehension that filters out the decomposed jubbles.\<close>

fun prune :: "store \<Rightarrow> addr list \<Rightarrow> error + addr list" where
  "prune h [] = Inr []"
| "prune h (a # as) =
     (case will_be_drawn (h a) of
        Inl e \<Rightarrow> Inl e
      | Inr b \<Rightarrow>
          (case prune h as of
             Inl e \<Rightarrow> Inl e
           | Inr r \<Rightarrow> Inr (if b then a # r else r)))"

text \<open>The update loop; \<open>rnd k\<close> holds the random draws of the \<open>k\<close>-th call of
  \<^verbatim>\<open>update\<close>.\<close>

fun update_all :: "(nat \<Rightarrow> real \<times> real) \<Rightarrow> nat \<Rightarrow> store \<Rightarrow> addr list \<Rightarrow> error + store" where
  "update_all rnd k h [] = Inr h"
| "update_all rnd k h (a # as) =
     (case update h (rnd k) (h a) of
        Inl e \<Rightarrow> Inl e
      | Inr j1 \<Rightarrow> update_all rnd (Suc k) (h(a := j1)) as)"

text \<open>\<^verbatim>\<open>update_jubbles\<close>. \<^verbatim>\<open>copy.copy(old_jubbles)\<close> is a new list that holds the same
  references, so \<open>new_jubbles\<close> is the same list of addresses.\<close>

definition update_jubbles ::
  "(nat \<Rightarrow> real \<times> real) \<Rightarrow> store \<Rightarrow> addr list \<Rightarrow> error + (store \<times> addr list)" where
  "update_jubbles rnd h old_jubbles =
     (case fight_phase h old_jubbles of
        Inl e \<Rightarrow> Inl e
      | Inr h1 \<Rightarrow>
          (let new_jubbles = old_jubbles;
               h2 = goal_phase old_jubbles new_jubbles h1
           in case prune h2 new_jubbles of
                Inl e \<Rightarrow> Inl e
              | Inr new_jubbles1 \<Rightarrow>
                  (case update_all rnd 0 h2 new_jubbles1 of
                     Inl e \<Rightarrow> Inl e
                   | Inr h3 \<Rightarrow> Inr (h3, new_jubbles1))))"

section \<open>Auxiliary definitions\<close>

subsection \<open>Concrete jubbles and worlds\<close>

definition jubble_A :: jubble where
  "jubble_A = new_jubble 1 100 100 (0, 0, 0)"

definition store_A :: store where
  "store_A = (\<lambda>a. jubble_A)"

subsection \<open>Relations between the states before and after an operation\<close>

definition goals_only :: "jubble \<Rightarrow> jubble \<Rightarrow> bool" where
  "goals_only j j' \<longleftrightarrow>
     j' = j\<lparr> has_jubble_goal := has_jubble_goal j', goal_jubble := goal_jubble j' \<rparr> \<and>
     (has_jubble_goal j \<longrightarrow> j' = j)"

definition store_goals_only :: "store \<Rightarrow> store \<Rightarrow> bool" where
  "store_goals_only h h' \<longleftrightarrow> (\<forall>a. goals_only (h a) (h' a))"

definition same_life :: "jubble \<Rightarrow> jubble \<Rightarrow> bool" where
  "same_life j j' \<longleftrightarrow>
     is_alive j' = is_alive j \<and> age_of_death j' = age_of_death j \<and> age j' = age j"

definition aod_ok :: "jubble \<Rightarrow> bool" where
  "aod_ok j \<longleftrightarrow> is_alive j \<or> age_of_death j \<noteq> None"

text \<open>The worlds the driver can reach: a store, the number of allocated addresses and the
  list \<^verbatim>\<open>jubbles\<close> of \<^verbatim>\<open>main\<close>. A jubble is constructed at a fresh address and appended
  to the list, \<^verbatim>\<open>update_jubbles\<close> steps the population, and each public operation may be
  called on any allocated jubble.\<close>

inductive reachable :: "store \<Rightarrow> nat \<Rightarrow> addr list \<Rightarrow> bool" where
  start: "reachable h 0 []"
| spawn: "reachable h n js \<Longrightarrow>
     reachable (h(n := new_jubble i px py col)) (Suc n) (js @ [n])"
| step: "reachable h n js \<Longrightarrow> update_jubbles rnd h js = Inr (h', js') \<Longrightarrow> reachable h' n js'"
| call_update: "reachable h n js \<Longrightarrow> a < n \<Longrightarrow> update h r (h a) = Inr j' \<Longrightarrow>
     reachable (h(a := j')) n js"
| call_set_coord_goal: "reachable h n js \<Longrightarrow> a < n \<Longrightarrow>
     reachable (h(a := set_coord_goal (h a) gx gy)) n js"
| call_set_jubble_goal: "reachable h n js \<Longrightarrow> a < n \<Longrightarrow> g < n \<Longrightarrow>
     reachable (h(a := set_jubble_goal (h a) g)) n js"
| call_kill: "reachable h n js \<Longrightarrow> a < n \<Longrightarrow> reachable (h(a := kill (h a))) n js"

text \<open>A world with one jubble that has been constructed and then killed; random draws that
  never turn; a store whose jubble at address 0 is dead.\<close>

definition store_A1 :: store where
  "store_A1 = (store_A(0 := jubble_A))(0 := kill ((store_A(0 := jubble_A)) 0))"

definition rnd_none :: "nat \<Rightarrow> real \<times> real" where
  "rnd_none k = (1 / 2, 0)"

definition store_dead :: store where
  "store_dead = store_A(0 := kill jubble_A)"




text \<open>Two jubbles of age 0 without goals, 50 apart, that face each other.\<close>

definition pair_A :: jubble where
  "pair_A = new_jubble 1 100 100 (0, 0, 0)"

definition pair_B :: jubble where
  "pair_B = (new_jubble 2 150 100 (0, 0, 0))\<lparr> angle := ANGLE_LEFT \<rparr>"

definition store_pair :: store where
  "store_pair = (\<lambda>a. pair_A)(1 := pair_B)"





text \<open>Detection as the specification words it: the point is within the detection radius
  and within the forward-facing cone of half-angle \<^verbatim>\<open>DEF_DETECTION_SLICE / 2\<close> centred on the
  heading, that is, the angle between the heading and the direction to the point is at most
  the half-angle.\<close>

definition in_detection_cone :: "jubble \<Rightarrow> real \<Rightarrow> real \<Rightarrow> bool" where
  "in_detection_cone j ox oy \<longleftrightarrow>
     hypot (ox - pos_x j) (oy - pos_y j) * cos (DEF_DETECTION_SLICE / 2)
       \<le> (ox - pos_x j) * cos (angle j) + (oy - pos_y j) * sin (angle j)"

definition can_detect_spec :: "jubble \<Rightarrow> real \<Rightarrow> real \<Rightarrow> bool" where
  "can_detect_spec j ox oy \<longleftrightarrow>
     dist_pt (get_pos j) (ox, oy) \<le> detection_radius j \<and> in_detection_cone j ox oy"

text \<open>A jubble at the bottom edge that heads up.\<close>

definition jubble_up :: jubble where
  "jubble_up = (new_jubble 1 100 450 (0, 0, 0))\<lparr> angle := ANGLE_UP \<rparr>"

subsection \<open>Drift along the edges of the playable rectangle\<close>

text \<open>\<open>inside\<close> is the playable rectangle of the specification, edges included.
  \<open>reset_angle\<close> is the heading \<^verbatim>\<open>_correct_offmap_drift\<close> leaves at a position on or
  beyond an edge. \<open>near\<close> bounds how far beyond the edges a position is; \<open>pen\<close> charges a
  position at the top or bottom edge for the sideways drift it can still make before it
  is back inside. \<open>drift_inv\<close> is the invariant of the ticks of a jubble without goals.\<close>

definition pen :: "real \<Rightarrow> real" where
  "pen y = (if y \<le> 30 then 1 / 2 + 3 / 5 * (30 - y)
            else if 450 \<le> y then 1 / 2 + 3 / 5 * (y - 450) else 0)"

definition near :: "real \<Rightarrow> real \<Rightarrow> bool" where
  "near x y \<longleftrightarrow> 29 \<le> y \<and> y \<le> 451 \<and> 30 - x + pen y \<le> 5 / 3 \<and> x - 610 + pen y \<le> 5 / 3"

definition inside :: "jubble \<Rightarrow> bool" where
  "inside j \<longleftrightarrow>
     fst HORIZONTAL_RANGE \<le> pos_x j \<and> pos_x j \<le> snd HORIZONTAL_RANGE \<and>
     fst VERTICAL_RANGE \<le> pos_y j \<and> pos_y j \<le> snd VERTICAL_RANGE"

definition reset_angle :: "jubble \<Rightarrow> real" where
  "reset_angle j =
     (if snd VERTICAL_RANGE \<le> pos_y j then ANGLE_UP
      else if pos_y j \<le> fst VERTICAL_RANGE then ANGLE_DOWN
      else if snd HORIZONTAL_RANGE \<le> pos_x j then ANGLE_LEFT
      else ANGLE_RIGHT)"

definition drift_inv :: "jubble \<Rightarrow> bool" where
  "drift_inv j \<longleftrightarrow>
     \<not> has_coord_goal j \<and> \<not> has_jubble_goal j \<and> speed j = DEF_SPEED \<and>
     near (pos_x j) (pos_y j) \<and> (\<not> inside j \<longrightarrow> angle j = reset_angle j)"

text \<open>A run of \<^verbatim>\<open>update\<close> calls on one jubble, one pair of random draws per call.\<close>

fun run_updates :: "store \<Rightarrow> (real \<times> real) list \<Rightarrow> jubble \<Rightarrow> error + jubble" where
  "run_updates h [] j = Inr j"
| "run_updates h (r # rs) j =
     (case update h r j of Inl e \<Rightarrow> Inl e | Inr j1 \<Rightarrow> run_updates h rs j1)"

text \<open>The result of \<^verbatim>\<open>update\<close> on an alive jubble without goals, speed 1 and an age below
  the death age, written out.\<close>

definition free_step :: "real \<times> real \<Rightarrow> jubble \<Rightarrow> jubble" where
  "free_step r j =
     (let th = (if fst r < CHANCE_OF_TURN then angle j + snd r else angle j);
          px = pos_x j + cos th;
          py = pos_y j + sin th
      in j\<lparr> angle := (if 450 \<le> py then ANGLE_UP else if py \<le> 30 then ANGLE_DOWN
                        else if 610 \<le> px then ANGLE_LEFT else if px \<le> 30 then ANGLE_RIGHT
                        else th),
             pos_x := px, pos_y := py, age := age j + 1 \<rparr>)"

text \<open>A jubble constructed in the corner of the rectangle, and its states after one
  tick without a turn and two ticks with a turn of \<open>pi / 8\<close> each.\<close>

definition corner_0 :: jubble where
  "corner_0 = new_jubble 1 30 30 (0, 0, 0)"

definition corner_1 :: jubble where
  "corner_1 = corner_0\<lparr> angle := ANGLE_DOWN, pos_x := 31, pos_y := 30, age := 1 \<rparr>"

definition corner_2 :: jubble where
  "corner_2 = corner_0\<lparr> angle := ANGLE_DOWN + pi / 8, pos_x := 31 - sin (pi / 8),
     pos_y := 30 + cos (pi / 8), age := 2 \<rparr>"

definition corner_3 :: jubble where
  "corner_3 = corner_0\<lparr> angle := ANGLE_RIGHT, pos_x := 31 - sin (pi / 8) - sqrt 2 / 2,
     pos_y := 30 + cos (pi / 8) + sqrt 2 / 2, age := 3 \<rparr>"

text \<open>A jubble on the left edge that heads left, and its state after one tick.\<close>

definition edge_0 :: jubble where
  "edge_0 = (new_jubble 1 30 100 (0, 0, 0))\<lparr> angle := ANGLE_LEFT \<rparr>"

definition edge_1 :: jubble where
  "edge_1 = edge_0\<lparr> angle := ANGLE_RIGHT, pos_x := 29, pos_y := 100, age := 1 \<rparr>"

section \<open>Properties\<close>

subsection \<open>Frame lemmas for the phases of the stepper\<close>

lemma update_dead: "\<not> is_alive j \<Longrightarrow> update h rnd j = Inr (get_older j)"
  by (simp add: update_def)

lemma get_older_dead:
  "\<not> is_alive j \<Longrightarrow> get_older j = j\<lparr> age := age j + 1 \<rparr>"
  by (simp add: get_older_def Let_def)

lemma kill_decision_SomeD:
  "kill_decision h j = Inr (Some g) \<Longrightarrow>
     has_jubble_goal j \<and> goal_jubble j = Some g \<and> is_alive j \<and> is_alive (h g) \<and>
     colliding_with_jubble j (h g) = Inr True \<and> will_win_against_jubble j (h g)"
  by (auto simp: kill_decision_def colliding_with_jubble_def
      split: if_splits option.splits sum.splits)

lemma fight_step_dead:
  "fight_step h x = Inr h1 \<Longrightarrow> \<not> is_alive (h a) \<Longrightarrow> h1 a = h a"
  by (auto simp: fight_step_def split: sum.splits option.splits dest: kill_decision_SomeD)

lemma fight_phase_dead:
  "fight_phase h xs = Inr h1 \<Longrightarrow> \<not> is_alive (h a) \<Longrightarrow> h1 a = h a"
proof (induction xs arbitrary: h)
  case Nil
  then show ?case by simp
next
  case (Cons x xs)
  from Cons.prems(1) obtain h2 where s: "fight_step h x = Inr h2" and r: "fight_phase h2 xs = Inr h1"
    by (auto split: sum.splits)
  from s Cons.prems(2) have "h2 a = h a" by (rule fight_step_dead)
  with Cons.IH [OF r] Cons.prems(2) show ?case by simp
qed

lemma goals_only_refl: "goals_only j j"
  unfolding goals_only_def by simp

lemma goals_only_trans: "goals_only j j1 \<Longrightarrow> goals_only j1 j2 \<Longrightarrow> goals_only j j2"
  unfolding goals_only_def
  by (cases j, cases j1, cases j2) auto

lemma goals_only_set_jubble_goal:
  "\<not> has_jubble_goal j \<Longrightarrow> goals_only j (set_jubble_goal j g)"
  unfolding goals_only_def set_jubble_goal_def by simp

lemma goals_only_fields:
  "goals_only j j' \<Longrightarrow>
     is_alive j' = is_alive j \<and> age j' = age j \<and> age_of_death j' = age_of_death j \<and>
     pos_x j' = pos_x j \<and> pos_y j' = pos_y j \<and> angle j' = angle j \<and>
     detection_radius j' = detection_radius j \<and> speed j' = speed j \<and>
     has_coord_goal j' = has_coord_goal j \<and> goal_x j' = goal_x j \<and> goal_y j' = goal_y j \<and>
     (has_jubble_goal j \<longrightarrow> has_jubble_goal j')"
  unfolding goals_only_def
  by (cases j, cases j') auto

lemma store_goals_only_refl: "store_goals_only h h"
  by (simp add: store_goals_only_def goals_only_refl)

lemma store_goals_only_trans:
  "store_goals_only h h1 \<Longrightarrow> store_goals_only h1 h2 \<Longrightarrow> store_goals_only h h2"
  unfolding store_goals_only_def by (blast intro: goals_only_trans)

lemma assign_step_goals_only: "store_goals_only h (assign_step js js j oj h)"
  unfolding store_goals_only_def assign_step_def
  by (auto simp: goals_only_refl goals_only_set_jubble_goal)

lemma fold_assign_goals_only:
  "store_goals_only h (fold (assign_step js js j) ojs h)"
proof (induction ojs arbitrary: h)
  case Nil
  show ?case by (simp add: store_goals_only_refl)
next
  case (Cons oj ojs)
  show ?case
    using store_goals_only_trans [OF assign_step_goals_only Cons.IH] by simp
qed

lemma fold_fold_assign_goals_only:
  "store_goals_only h (fold (\<lambda>j. fold (assign_step js js j) ojs) xs h)"
proof (induction xs arbitrary: h)
  case Nil
  show ?case by (simp add: store_goals_only_refl)
next
  case (Cons x xs)
  show ?case
    using store_goals_only_trans [OF fold_assign_goals_only Cons.IH] by simp
qed

lemma goal_phase_goals_only: "store_goals_only h (goal_phase js js h)"
  unfolding goal_phase_def by (rule fold_fold_assign_goals_only)

lemma same_life_set_coord_goal: "same_life j (set_coord_goal j gx gy)"
  by (simp add: same_life_def set_coord_goal_def)

lemma same_life_handle_jubble_goal:
  "handle_jubble_goal h j = Inr j1 \<Longrightarrow> same_life j j1"
  by (auto simp: handle_jubble_goal_def same_life_def set_coord_goal_def
      split: if_splits option.splits)

lemma same_life_handle_coord_goal:
  "handle_coord_goal j = Inr j1 \<Longrightarrow> same_life j j1"
  by (auto simp: handle_coord_goal_def same_life_def Let_def split: if_splits option.splits)

lemma same_life_correct_offmap_drift: "same_life j (correct_offmap_drift j)"
  by (simp add: same_life_def correct_offmap_drift_def Let_def)

lemma same_life_move_one_unit: "same_life j (move_one_unit j)"
  using same_life_correct_offmap_drift
    [of "j\<lparr> pos_x := pos_x j + fst (to_cartesian (angle j) (speed j)),
           pos_y := pos_y j + snd (to_cartesian (angle j) (speed j)) \<rparr>"]
  by (simp add: move_one_unit_def Let_def same_life_def)

lemma same_life_trans: "same_life j j1 \<Longrightarrow> same_life j1 j2 \<Longrightarrow> same_life j j2"
  by (simp add: same_life_def)

lemma update_alive_steps:
  assumes "is_alive j" and "update h rnd j = Inr j'"
  shows "\<exists>j2. same_life j j2 \<and> j' = get_older j2"
proof -
  from assms obtain j1 j2 where
    a: "(if has_jubble_goal j then handle_jubble_goal h j else Inr j) = Inr j1" and
    b: "(if has_coord_goal j1 then handle_coord_goal j1
         else if blueMoon (fst rnd) CHANCE_OF_TURN
              then Inr (add_random_angle_shift (snd rnd) j1) else Inr j1) = Inr j2" and
    c: "j' = get_older (move_one_unit j2)"
    by (auto simp: update_def split: sum.splits)
  from a have 1: "same_life j j1"
    by (cases "has_jubble_goal j") (simp_all add: same_life_handle_jubble_goal, simp add: same_life_def)
  from b have 2: "same_life j1 j2"
  proof (cases "has_coord_goal j1")
    case True
    with b show ?thesis by (simp add: same_life_handle_coord_goal)
  next
    case False
    with b show ?thesis
      by (auto simp: add_random_angle_shift_def same_life_def split: if_splits)
  qed
  have "same_life j (move_one_unit j2)"
    using 1 2 same_life_move_one_unit [of j2] by (simp add: same_life_def)
  with c show ?thesis by blast
qed

lemma aod_ok_kill: "aod_ok (kill j)"
  by (simp add: aod_ok_def kill_def)

lemma aod_ok_get_older: "aod_ok j \<Longrightarrow> aod_ok (get_older j)"
  by (auto simp: aod_ok_def get_older_def kill_def Let_def)

lemma aod_ok_same_life: "same_life j j' \<Longrightarrow> aod_ok j \<Longrightarrow> aod_ok j'"
  by (simp add: aod_ok_def same_life_def)

lemma aod_ok_update: "update h rnd j = Inr j' \<Longrightarrow> aod_ok j \<Longrightarrow> aod_ok j'"
proof (cases "is_alive j")
  case True
  assume u: "update h rnd j = Inr j'" and ok: "aod_ok j"
  from update_alive_steps [OF True u] obtain j2 where "same_life j j2" "j' = get_older j2"
    by blast
  with ok show ?thesis by (auto intro: aod_ok_get_older aod_ok_same_life)
next
  case False
  assume u: "update h rnd j = Inr j'" and ok: "aod_ok j"
  from False u have "j' = get_older j" by (simp add: update_dead)
  with ok show ?thesis by (simp add: aod_ok_get_older)
qed

lemma update_dead_keeps:
  "\<not> is_alive j \<Longrightarrow> update h rnd j = Inr j' \<Longrightarrow>
     \<not> is_alive j' \<and> age_of_death j' = age_of_death j"
  by (simp add: update_dead get_older_dead) auto

lemma update_all_dead:
  "update_all rnd k h xs = Inr h' \<Longrightarrow> \<not> is_alive (h a) \<Longrightarrow>
     \<not> is_alive (h' a) \<and> age_of_death (h' a) = age_of_death (h a)"
proof (induction xs arbitrary: h k)
  case Nil
  then show ?case by simp
next
  case (Cons x xs)
  from Cons.prems(1) obtain j1 where
    u: "update h (rnd k) (h x) = Inr j1" and
    r: "update_all rnd (Suc k) (h(x := j1)) xs = Inr h'"
    by (auto split: sum.splits)
  have d: "\<not> is_alive ((h(x := j1)) a) \<and> age_of_death ((h(x := j1)) a) = age_of_death (h a)"
    using Cons.prems(2) u update_dead_keeps [of "h x" h "rnd k" j1] by auto
  from Cons.IH [OF r] d show ?case by simp
qed

lemma update_all_aod_ok:
  "update_all rnd k h xs = Inr h' \<Longrightarrow> \<forall>a. P a \<longrightarrow> aod_ok (h a) \<Longrightarrow>
     \<forall>a. P a \<longrightarrow> aod_ok (h' a)"
proof (induction xs arbitrary: h k)
  case Nil
  then show ?case by simp
next
  case (Cons x xs)
  from Cons.prems(1) obtain j1 where
    u: "update h (rnd k) (h x) = Inr j1" and
    r: "update_all rnd (Suc k) (h(x := j1)) xs = Inr h'"
    by (auto split: sum.splits)
  have "\<forall>a. P a \<longrightarrow> aod_ok ((h(x := j1)) a)"
    using Cons.prems(2) aod_ok_update [OF u] by auto
  from Cons.IH [OF r this] show ?case by simp
qed

lemma fight_step_aod_ok:
  "fight_step h x = Inr h1 \<Longrightarrow> \<forall>a. P a \<longrightarrow> aod_ok (h a) \<Longrightarrow> \<forall>a. P a \<longrightarrow> aod_ok (h1 a)"
  by (auto simp: fight_step_def aod_ok_kill split: sum.splits option.splits)

lemma fight_phase_aod_ok:
  "fight_phase h xs = Inr h1 \<Longrightarrow> \<forall>a. P a \<longrightarrow> aod_ok (h a) \<Longrightarrow> \<forall>a. P a \<longrightarrow> aod_ok (h1 a)"
proof (induction xs arbitrary: h)
  case Nil
  then show ?case by simp
next
  case (Cons x xs)
  from Cons.prems(1) obtain h2 where
    s: "fight_step h x = Inr h2" and r: "fight_phase h2 xs = Inr h1"
    by (auto split: sum.splits)
  from Cons.IH [OF r fight_step_aod_ok [OF s Cons.prems(2)]] show ?case .
qed

lemma goal_phase_life:
  "is_alive (goal_phase js js h a) = is_alive (h a) \<and>
   age_of_death (goal_phase js js h a) = age_of_death (h a) \<and>
   age (goal_phase js js h a) = age (h a)"
  using goal_phase_goals_only [of h js] goals_only_fields [of "h a" "goal_phase js js h a"]
  by (simp add: store_goals_only_def)

lemma update_jubbles_phases:
  assumes "update_jubbles rnd h js = Inr (h', js')"
  obtains h1 where "fight_phase h js = Inr h1"
    and "prune (goal_phase js js h1) js = Inr js'"
    and "update_all rnd 0 (goal_phase js js h1) js' = Inr h'"
  using assms by (auto simp: update_jubbles_def Let_def split: sum.splits)

lemma update_jubbles_aod_ok:
  assumes "update_jubbles rnd h js = Inr (h', js')" and "\<forall>a. P a \<longrightarrow> aod_ok (h a)"
  shows "\<forall>a. P a \<longrightarrow> aod_ok (h' a)"
proof -
  from assms(1) obtain h1 where
    f: "fight_phase h js = Inr h1" and
    u: "update_all rnd 0 (goal_phase js js h1) js' = Inr h'"
    by (rule update_jubbles_phases)
  have "\<forall>a. P a \<longrightarrow> aod_ok (h1 a)"
    using fight_phase_aod_ok [OF f assms(2)] .
  then have "\<forall>a. P a \<longrightarrow> aod_ok (goal_phase js js h1 a)"
    using goal_phase_life [of js h1] by (simp add: aod_ok_def)
  from update_all_aod_ok [OF u this] show ?thesis .
qed

lemma update_jubbles_dead:
  assumes "update_jubbles rnd h js = Inr (h', js')" and "\<not> is_alive (h a)"
  shows "\<not> is_alive (h' a) \<and> age_of_death (h' a) = age_of_death (h a)"
proof -
  from assms(1) obtain h1 where
    f: "fight_phase h js = Inr h1" and
    u: "update_all rnd 0 (goal_phase js js h1) js' = Inr h'"
    by (rule update_jubbles_phases)
  have 1: "h1 a = h a" using fight_phase_dead [OF f assms(2)] .
  have 2: "\<not> is_alive (goal_phase js js h1 a) \<and>
           age_of_death (goal_phase js js h1 a) = age_of_death (h a)"
    using goal_phase_life [of js h1 a] 1 assms(2) by simp
  from update_all_dead [OF u] 2 show ?thesis by simp
qed

lemma reachable_aod_ok: "reachable h n js \<Longrightarrow> \<forall>a. a < n \<longrightarrow> aod_ok (h a)"
proof (induction rule: reachable.induct)
  case (start h)
  show ?case by simp
next
  case (spawn h n js i px py col)
  then show ?case by (auto simp: aod_ok_def new_jubble_def less_Suc_eq)
next
  case (step h n js rnd h' js')
  from update_jubbles_aod_ok [OF step.hyps(2) step.IH] show ?case .
next
  case (call_update h n js a r j')
  then show ?case by (auto dest: aod_ok_update)
next
  case (call_set_coord_goal h n js a gx gy)
  then show ?case using aod_ok_same_life [OF same_life_set_coord_goal] by auto
next
  case (call_set_jubble_goal h n js a g)
  then show ?case by (auto simp: aod_ok_def set_jubble_goal_def)
next
  case (call_kill h n js a)
  then show ?case by (auto simp: aod_ok_kill)
qed

lemma will_be_drawn_aod_ok: "aod_ok j \<Longrightarrow> \<exists>b. will_be_drawn j = Inr b"
  by (auto simp: aod_ok_def will_be_drawn_def split: option.splits)

subsection \<open>Claim C10\<close>

text \<open>Claim C10: \<^verbatim>\<open>will_be_drawn\<close> is total on every reachable agent state. In every world
  reached from the empty one by constructing jubbles, running \<^verbatim>\<open>update_jubbles\<close> and calling
  \<^verbatim>\<open>update\<close>, \<^verbatim>\<open>set_coord_goal\<close>, \<^verbatim>\<open>set_jubble_goal\<close> and \<^verbatim>\<open>kill\<close> on
  allocated jubbles, every allocated jubble is alive or has its age of death set, so
  \<^verbatim>\<open>will_be_drawn\<close> returns a boolean and never takes its TypeError branch.\<close>

theorem will_be_drawn_total:
  "reachable h n js \<Longrightarrow> a < n \<Longrightarrow>
     (is_alive (h a) \<or> age_of_death (h a) \<noteq> None) \<and> (\<exists>b. will_be_drawn (h a) = Inr b)"
  using reachable_aod_ok [of h n js] will_be_drawn_aod_ok [of "h a"]
  by (simp add: aod_ok_def)

text \<open>A reachable world: one jubble is constructed and then killed.\<close>

theorem will_be_drawn_total_witness:
  "reachable store_A1 1 [0] \<and> (0::nat) < 1 \<and> \<not> is_alive (store_A1 0) \<and>
   age_of_death (store_A1 0) = Some 0 \<and> will_be_drawn (store_A1 0) = Inr True"
proof -
  have "reachable (store_A(0 := new_jubble 1 100 100 (0, 0, 0))) (Suc 0) ([] @ [0])"
    by (rule reachable.spawn) (rule reachable.start)
  then have "reachable (store_A(0 := jubble_A)) 1 [0]"
    by (simp add: jubble_A_def)
  then have r: "reachable store_A1 1 [0]"
    unfolding store_A1_def by (rule reachable.call_kill) simp
  have v: "will_be_drawn (store_A1 0) = Inr True"
    by (simp add: store_A1_def will_be_drawn_def kill_def jubble_A_def new_jubble_def
        TIME_TAKEN_TO_DECOMPOSE_def)
  have a: "\<not> is_alive (store_A1 0) \<and> age_of_death (store_A1 0) = Some 0"
    by (simp add: store_A1_def kill_def jubble_A_def new_jubble_def)
  from will_be_drawn_total [OF r, of 0] r v a show ?thesis by simp
qed

subsection \<open>Claim C6\<close>

text \<open>\<^verbatim>\<open>kill\<close> overwrites the age of death: a jubble killed at age 0, aged by one
  \<^verbatim>\<open>update\<close> and killed again has age of death 1.\<close>

theorem kill_twice_counterexample:
  "age_of_death (kill jubble_A) = Some 0 \<and>
   update store_A (1 / 2, 0) (kill jubble_A) = Inr (get_older (kill jubble_A)) \<and>
   age_of_death (kill (get_older (kill jubble_A))) = Some 1"
  by (simp add: update_def kill_def get_older_def jubble_A_def new_jubble_def Let_def DEATH_AGE_def)

text \<open>Claim C6, amended: \<^verbatim>\<open>kill\<close> always sets the jubble dead and sets the age of death
  to the current age, so two calls in a row are one call; the program itself calls
  \<^verbatim>\<open>kill\<close> on alive jubbles only: \<^verbatim>\<open>update\<close> on a dead jubble only ages it and keeps
  the age of death, and a whole \<^verbatim>\<open>update_jubbles\<close> tick keeps every dead jubble dead with
  its age of death.\<close>

theorem kill_records_age_of_death:
  "kill (kill j) = kill j \<and> \<not> is_alive (kill j) \<and> age_of_death (kill j) = Some (age j) \<and>
   (\<not> is_alive j \<longrightarrow> update h rnd j = Inr (get_older j) \<and> \<not> is_alive (get_older j) \<and>
      age_of_death (get_older j) = age_of_death j) \<and>
   (\<not> is_alive (h a) \<and> update_jubbles rnds h js = Inr (h', js') \<longrightarrow>
      \<not> is_alive (h' a) \<and> age_of_death (h' a) = age_of_death (h a))"
proof -
  have 1: "kill (kill j) = kill j \<and> \<not> is_alive (kill j) \<and> age_of_death (kill j) = Some (age j)"
    by (simp add: kill_def)
  have 2: "\<not> is_alive j \<longrightarrow> update h rnd j = Inr (get_older j) \<and> \<not> is_alive (get_older j) \<and>
      age_of_death (get_older j) = age_of_death j"
    by (simp add: update_dead get_older_dead)
  have 3: "\<not> is_alive (h a) \<and> update_jubbles rnds h js = Inr (h', js') \<longrightarrow>
      \<not> is_alive (h' a) \<and> age_of_death (h' a) = age_of_death (h a)"
    using update_jubbles_dead [of rnds h js h' js' a] by blast
  from 1 2 3 show ?thesis by blast
qed

lemma update_jubbles_store_dead:
  "update_jubbles rnd_none store_dead [0] = Inr (store_dead(0 := get_older (kill jubble_A)), [0])"
  by (simp add: update_jubbles_def goal_phase_def assign_step_def fight_step_def
      kill_decision_def store_dead_def will_be_drawn_def update_dead kill_def jubble_A_def
      new_jubble_def TIME_TAKEN_TO_DECOMPOSE_def Let_def)

theorem kill_records_age_of_death_witness:
  "\<not> is_alive (store_dead 0) \<and>
   update_jubbles rnd_none store_dead [0] = Inr (store_dead(0 := get_older (kill jubble_A)), [0]) \<and>
   age_of_death ((store_dead(0 := get_older (kill jubble_A))) 0) = Some 0 \<and>
   age ((store_dead(0 := get_older (kill jubble_A))) 0) = 1 \<and>
   update store_A (1 / 2, 0) (store_dead 0) = Inr (get_older (store_dead 0))"
  using kill_records_age_of_death [of jubble_A store_dead "(1 / 2, 0)" 0 rnd_none "[0]"
      "store_dead(0 := get_older (kill jubble_A))" "[0]"]
    kill_records_age_of_death [of "store_dead 0" store_A "(1 / 2, 0)" 0 rnd_none "[0]"
      "store_dead(0 := get_older (kill jubble_A))" "[0]"]
    update_jubbles_store_dead
  by (simp add: store_dead_def kill_def get_older_def jubble_A_def new_jubble_def Let_def
      DEATH_AGE_def)

subsection \<open>Claim C3\<close>

text \<open>A jubble with an accepted coordinate goal that is given a jubble goal holds both.\<close>

theorem both_goals_counterexample:
  "has_coord_goal (set_jubble_goal (set_coord_goal jubble_A 200 200) 1) \<and>
   has_jubble_goal (set_jubble_goal (set_coord_goal jubble_A 200 200) 1) \<and>
   goal_x (set_jubble_goal (set_coord_goal jubble_A 200 200) 1) = Some 200 \<and>
   goal_jubble (set_jubble_goal (set_coord_goal jubble_A 200 200) 1) = Some 1"
  by (simp add: set_jubble_goal_def set_coord_goal_def HORIZONTAL_RANGE_def VERTICAL_RANGE_def
      SCREEN_SIZE_def EDGE_AVOIDANCE_def)

text \<open>Claim C3, amended: the goal state is two independent flags. A new jubble has neither;
  an accepted \<^verbatim>\<open>set_coord_goal\<close> sets the coordinate goal and a rejected one changes
  nothing, and both leave the jubble goal as it is; \<^verbatim>\<open>set_jubble_goal\<close> sets the jubble
  goal and leaves the coordinate goal as it is; \<^verbatim>\<open>kill\<close> changes neither flag. When
  \<^verbatim>\<open>update\<close> re-evaluates a jubble goal whose target is alive and in range, it calls
  \<^verbatim>\<open>set_coord_goal\<close> with the position of the target and keeps the jubble goal;
  otherwise it clears the flag of the jubble goal only.\<close>

theorem goal_flags_independent:
  "(\<not> has_coord_goal (new_jubble i px py col) \<and> \<not> has_jubble_goal (new_jubble i px py col)) \<and>
   (fst HORIZONTAL_RANGE \<le> gx \<and> gx \<le> snd HORIZONTAL_RANGE \<and>
    fst VERTICAL_RANGE \<le> gy \<and> gy \<le> snd VERTICAL_RANGE \<longrightarrow>
      has_coord_goal (set_coord_goal j gx gy) \<and>
      goal_x (set_coord_goal j gx gy) = Some gx \<and> goal_y (set_coord_goal j gx gy) = Some gy) \<and>
   (\<not> (fst HORIZONTAL_RANGE \<le> gx \<and> gx \<le> snd HORIZONTAL_RANGE \<and>
       fst VERTICAL_RANGE \<le> gy \<and> gy \<le> snd VERTICAL_RANGE) \<longrightarrow> set_coord_goal j gx gy = j) \<and>
   has_jubble_goal (set_coord_goal j gx gy) = has_jubble_goal j \<and>
   goal_jubble (set_coord_goal j gx gy) = goal_jubble j \<and>
   has_jubble_goal (set_jubble_goal j g) \<and> goal_jubble (set_jubble_goal j g) = Some g \<and>
   has_coord_goal (set_jubble_goal j g) = has_coord_goal j \<and>
   goal_x (set_jubble_goal j g) = goal_x j \<and> goal_y (set_jubble_goal j g) = goal_y j \<and>
   has_coord_goal (kill j) = has_coord_goal j \<and> has_jubble_goal (kill j) = has_jubble_goal j \<and>
   (has_jubble_goal j \<and> goal_jubble j = Some g \<and> is_alive (h g) \<and> can_chase_jubble j (h g) \<longrightarrow>
      handle_jubble_goal h j = Inr (set_coord_goal j (pos_x (h g)) (pos_y (h g))) \<and>
      has_jubble_goal (set_coord_goal j (pos_x (h g)) (pos_y (h g)))) \<and>
   (has_jubble_goal j \<and> goal_jubble j = Some g \<and> \<not> (is_alive (h g) \<and> can_chase_jubble j (h g)) \<longrightarrow>
      handle_jubble_goal h j = Inr (j\<lparr> has_jubble_goal := False \<rparr>))"
  by (simp add: new_jubble_def set_coord_goal_def set_jubble_goal_def kill_def
      handle_jubble_goal_def)

theorem goal_flags_independent_witness:
  "fst HORIZONTAL_RANGE \<le> 200 \<and> 200 \<le> snd HORIZONTAL_RANGE \<and>
   fst VERTICAL_RANGE \<le> 200 \<and> 200 \<le> snd VERTICAL_RANGE \<and>
   has_coord_goal (set_coord_goal (set_jubble_goal jubble_A 1) 200 200) \<and>
   has_jubble_goal (set_coord_goal (set_jubble_goal jubble_A 1) 200 200) \<and>
   \<not> 30 \<le> (0::real) \<and> set_coord_goal jubble_A 0 0 = jubble_A \<and>
   has_jubble_goal (set_jubble_goal pair_A 1) \<and> goal_jubble (set_jubble_goal pair_A 1) = Some 1 \<and>
   is_alive (store_pair 1) \<and> can_chase_jubble (set_jubble_goal pair_A 1) (store_pair 1) \<and>
   handle_jubble_goal store_pair (set_jubble_goal pair_A 1) =
     Inr (set_coord_goal (set_jubble_goal pair_A 1) 150 100) \<and>
   has_coord_goal (set_coord_goal (set_jubble_goal pair_A 1) 150 100) \<and>
   has_jubble_goal (set_coord_goal (set_jubble_goal pair_A 1) 150 100) \<and>
   \<not> is_alive (kill pair_B) \<and>
   handle_jubble_goal (store_pair(1 := kill pair_B)) (set_jubble_goal pair_A 1) =
     Inr ((set_jubble_goal pair_A 1)\<lparr> has_jubble_goal := False \<rparr>)"
proof -
  have c: "can_chase_jubble (set_jubble_goal pair_A 1) (store_pair 1)"
    by (simp add: can_chase_jubble_def coord_in_range_def get_pos_def dist_pt_def hypot_def
        store_pair_def pair_A_def pair_B_def new_jubble_def set_jubble_goal_def
        DEF_DETECTION_RADIUS_def)
  have p: "pos_x (store_pair 1) = 150" "pos_y (store_pair 1) = 100" "is_alive (store_pair 1)"
    "(store_pair(1 := kill pair_B)) 1 = kill pair_B" "\<not> is_alive (kill pair_B)"
    by (simp_all add: store_pair_def pair_B_def new_jubble_def kill_def)
  have r: "fst HORIZONTAL_RANGE \<le> 200 \<and> 200 \<le> snd HORIZONTAL_RANGE \<and>
     fst VERTICAL_RANGE \<le> 200 \<and> 200 \<le> snd VERTICAL_RANGE \<and> \<not> 30 \<le> (0::real) \<and>
     fst HORIZONTAL_RANGE \<le> 150 \<and> 150 \<le> snd HORIZONTAL_RANGE \<and>
     fst VERTICAL_RANGE \<le> 100 \<and> 100 \<le> snd VERTICAL_RANGE \<and> fst HORIZONTAL_RANGE = 30"
    by (simp add: HORIZONTAL_RANGE_def VERTICAL_RANGE_def SCREEN_SIZE_def EDGE_AVOIDANCE_def)
  have g: "has_jubble_goal (set_jubble_goal pair_A 1)"
    "goal_jubble (set_jubble_goal pair_A 1) = Some 1"
    by (simp_all add: set_jubble_goal_def)
  from r g c p
    goal_flags_independent
      [of 1 100 100 "(0, 0, 0)" 200 200 "set_jubble_goal jubble_A 1" 1 store_pair]
    goal_flags_independent [of 1 100 100 "(0, 0, 0)" 0 0 jubble_A 1 store_pair]
    goal_flags_independent
      [of 1 100 100 "(0, 0, 0)" 150 100 "set_jubble_goal pair_A 1" 1 store_pair]
    goal_flags_independent
      [of 1 100 100 "(0, 0, 0)" 150 100 "set_jubble_goal pair_A 1" 1 "store_pair(1 := kill pair_B)"]
  show ?thesis by (simp del: One_nat_def fun_upd_apply)
qed

subsection \<open>Claim C8\<close>

lemma radius_of_age_strict_mono:
  "a1 < a2 \<Longrightarrow> a2 \<le> MATURE_AGE \<Longrightarrow> radius_of_age a1 < radius_of_age a2"
  by (simp add: radius_of_age_def MATURE_AGE_def MATURE_SIZE_def BIRTH_SIZE_def)

lemma radius_of_age_mature:
  "MATURE_AGE \<le> a \<Longrightarrow> radius_of_age a = MATURE_SIZE"
  by (simp add: radius_of_age_def MATURE_AGE_def MATURE_SIZE_def BIRTH_SIZE_def)

text \<open>Claim C8: the radius of an alive jubble is a function of its age that is strictly
  increasing up to the maturity age and equal to the mature size from there on; the radius of
  a dead jubble is the same function of its age of death, so it does not depend on the age,
  killing an alive jubble keeps its radius, and \<^verbatim>\<open>update\<close> on a dead jubble keeps it.\<close>

theorem get_radius_growth_and_freeze:
  "(a1 < a2 \<and> a2 \<le> MATURE_AGE \<longrightarrow> radius_of_age a1 < radius_of_age a2) \<and>
   (MATURE_AGE \<le> a1 \<longrightarrow> radius_of_age a1 = MATURE_SIZE) \<and>
   (is_alive j \<longrightarrow> get_radius j = Inr (radius_of_age (real_of_int (age j)))) \<and>
   (is_alive j \<and> is_alive j2 \<and> age j < age j2 \<and> real_of_int (age j2) \<le> MATURE_AGE \<longrightarrow>
      (\<exists>r1 r2. get_radius j = Inr r1 \<and> get_radius j2 = Inr r2 \<and> r1 < r2)) \<and>
   (is_alive j \<and> MATURE_AGE \<le> real_of_int (age j) \<longrightarrow> get_radius j = Inr MATURE_SIZE) \<and>
   (\<not> is_alive j \<and> age_of_death j = Some d \<longrightarrow>
      get_radius j = Inr (radius_of_age (real_of_int d)) \<and>
      get_radius (j\<lparr> age := a \<rparr>) = get_radius j) \<and>
   (is_alive j \<longrightarrow> get_radius (kill j) = get_radius j) \<and>
   (\<not> is_alive j \<longrightarrow> (\<exists>j'. update h rnd j = Inr j' \<and> get_radius j' = get_radius j))"
  by (auto simp: get_radius_def radius_of_age_strict_mono radius_of_age_mature kill_def
      update_dead get_older_dead split: option.splits)

theorem get_radius_growth_and_freeze_witness:
  "is_alive jubble_A \<and> is_alive (jubble_A\<lparr> age := 300 \<rparr>) \<and>
   age jubble_A < age (jubble_A\<lparr> age := 300 \<rparr>) \<and>
   real_of_int (age (jubble_A\<lparr> age := 300 \<rparr>)) \<le> MATURE_AGE \<and>
   get_radius jubble_A = Inr 5 \<and> get_radius (jubble_A\<lparr> age := 300 \<rparr>) = Inr 10 \<and>
   MATURE_AGE \<le> real_of_int (age (jubble_A\<lparr> age := 700 \<rparr>)) \<and>
   get_radius (jubble_A\<lparr> age := 700 \<rparr>) = Inr MATURE_SIZE \<and>
   \<not> is_alive (kill (jubble_A\<lparr> age := 300 \<rparr>)) \<and>
   age_of_death (kill (jubble_A\<lparr> age := 300 \<rparr>)) = Some 300 \<and>
   get_radius (kill (jubble_A\<lparr> age := 300 \<rparr>)) = Inr 10 \<and>
   get_radius ((kill (jubble_A\<lparr> age := 300 \<rparr>))\<lparr> age := 520 \<rparr>) = Inr 10 \<and>
   update store_A (1 / 2, 0) (kill (jubble_A\<lparr> age := 300 \<rparr>)) =
     Inr (get_older (kill (jubble_A\<lparr> age := 300 \<rparr>))) \<and>
   get_radius (get_older (kill (jubble_A\<lparr> age := 300 \<rparr>))) = Inr 10"
  using get_radius_growth_and_freeze
      [of 0 300 jubble_A "jubble_A\<lparr> age := 300 \<rparr>" 300 520 store_A "(1 / 2, 0)"]
    get_radius_growth_and_freeze
      [of 700 700 "jubble_A\<lparr> age := 700 \<rparr>" "jubble_A\<lparr> age := 700 \<rparr>" 300 520 store_A "(1 / 2, 0)"]
    get_radius_growth_and_freeze
      [of 0 300 "kill (jubble_A\<lparr> age := 300 \<rparr>)" jubble_A 300 520 store_A "(1 / 2, 0)"]
  by (simp add: jubble_A_def new_jubble_def kill_def radius_of_age_def MATURE_AGE_def
      MATURE_SIZE_def BIRTH_SIZE_def update_dead get_older_dead get_radius_def)

subsection \<open>Claim C9\<close>

text \<open>Claim C9: \<^verbatim>\<open>will_be_drawn\<close> returns True exactly when the jubble is alive, or is dead
  with an age of death less than \<^verbatim>\<open>TIME_TAKEN_TO_DECOMPOSE\<close> below its age: for a dead
  jubble it is True at a difference of \<^verbatim>\<open>TIME_TAKEN_TO_DECOMPOSE - 1\<close> and False at a
  difference of \<^verbatim>\<open>TIME_TAKEN_TO_DECOMPOSE\<close>.\<close>

theorem will_be_drawn_window:
  "(will_be_drawn j = Inr True \<longleftrightarrow>
      is_alive j \<or>
      (\<exists>d. age_of_death j = Some d \<and> real_of_int (age j - d) < TIME_TAKEN_TO_DECOMPOSE)) \<and>
   (\<not> is_alive j \<and> age_of_death j = Some d \<and>
      real_of_int (age j - d) = TIME_TAKEN_TO_DECOMPOSE - 1 \<longrightarrow> will_be_drawn j = Inr True) \<and>
   (\<not> is_alive j \<and> age_of_death j = Some d \<and>
      real_of_int (age j - d) = TIME_TAKEN_TO_DECOMPOSE \<longrightarrow> will_be_drawn j = Inr False)"
  by (auto simp: will_be_drawn_def TIME_TAKEN_TO_DECOMPOSE_def split: option.splits)

theorem will_be_drawn_window_witness:
  "\<not> is_alive ((kill jubble_A)\<lparr> age := 299 \<rparr>) \<and>
   age_of_death ((kill jubble_A)\<lparr> age := 299 \<rparr>) = Some 0 \<and>
   real_of_int (age ((kill jubble_A)\<lparr> age := 299 \<rparr>) - 0) = TIME_TAKEN_TO_DECOMPOSE - 1 \<and>
   will_be_drawn ((kill jubble_A)\<lparr> age := 299 \<rparr>) = Inr True \<and>
   \<not> is_alive ((kill jubble_A)\<lparr> age := 300 \<rparr>) \<and>
   age_of_death ((kill jubble_A)\<lparr> age := 300 \<rparr>) = Some 0 \<and>
   real_of_int (age ((kill jubble_A)\<lparr> age := 300 \<rparr>) - 0) = TIME_TAKEN_TO_DECOMPOSE \<and>
   will_be_drawn ((kill jubble_A)\<lparr> age := 300 \<rparr>) = Inr False \<and>
   is_alive jubble_A \<and> will_be_drawn jubble_A = Inr True"
  using will_be_drawn_window [of "(kill jubble_A)\<lparr> age := 299 \<rparr>" 0]
    will_be_drawn_window [of "(kill jubble_A)\<lparr> age := 300 \<rparr>" 0]
    will_be_drawn_window [of jubble_A 0]
  by (simp add: jubble_A_def new_jubble_def kill_def TIME_TAKEN_TO_DECOMPOSE_def)

subsection \<open>Evaluation of the geometry on the concrete worlds\<close>

lemma hypot_0_right: "hypot a 0 = \<bar>a\<bar>"
  by (simp add: hypot_def)

lemma atan2_0_left: "atan2 0 a = (if a < 0 then pi else 0)"
  by (simp add: atan2_def)

lemmas range_simps = HORIZONTAL_RANGE_def VERTICAL_RANGE_def SCREEN_SIZE_def EDGE_AVOIDANCE_def

lemmas eval_simps = new_jubble_def set_jubble_goal_def kill_def get_pos_def
  can_detect_jubble_def can_detect_coord_def coord_in_range_def dist_pt_def to_polar_def
  hypot_0_right atan2_0_left will_win_against_jubble_def will_fight_with_jubble_def
  colliding_with_jubble_def get_radius_def radius_of_age_def circles_are_touching_def
  DEF_ANGLE_def DEF_SPEED_def DEF_DETECTION_RADIUS_def DEF_DETECTION_SLICE_def ANGLE_LEFT_def
  MATURE_AGE_def MATURE_SIZE_def BIRTH_SIZE_def Let_def



subsection \<open>Claim C1\<close>


lemma pair_detect:
  "can_detect_jubble (store_pair 0) (store_pair 1)"
  "can_detect_jubble (store_pair 1) (store_pair 0)"
  by (simp_all add: store_pair_def pair_A_def pair_B_def eval_simps)

lemma pair_goal_phase:
  "goal_phase [0, 1] [0, 1] store_pair =
     store_pair(0 := set_jubble_goal (store_pair 0) 1, 1 := set_jubble_goal (store_pair 1) 0)"
  by (simp add: goal_phase_def assign_step_def store_pair_def pair_A_def pair_B_def eval_simps)













subsection \<open>Claim C5\<close>

lemma store_goals_only_preds:
  assumes "store_goals_only h h'"
  shows "is_alive (h' a) = is_alive (h a)"
    and "can_detect_jubble (h' a) (h' b) = can_detect_jubble (h a) (h b)"
    and "will_fight_with_jubble (h' a) (h' b) = will_fight_with_jubble (h a) (h b)"
    and "has_jubble_goal (h a) \<Longrightarrow> has_jubble_goal (h' a)"
  using assms goals_only_fields [of "h a" "h' a"] goals_only_fields [of "h b" "h' b"]
  by (simp_all add: store_goals_only_def can_detect_jubble_def can_detect_coord_def
      coord_in_range_def get_pos_def will_fight_with_jubble_def)

lemma assign_step_hit:
  assumes "i \<noteq> k" "is_alive (h (js ! i))" "is_alive (h (js ! k))"
    "can_detect_jubble (h (js ! i)) (h (js ! k))" "will_fight_with_jubble (h (js ! i)) (h (js ! k))"
  shows "has_jubble_goal (assign_step js js i k h (js ! i))"
  using assms by (simp add: assign_step_def set_jubble_goal_def)

lemma fold_assign_hit:
  assumes "k \<in> set ojs" "i \<noteq> k" "is_alive (h (js ! i))" "is_alive (h (js ! k))"
    "can_detect_jubble (h (js ! i)) (h (js ! k))" "will_fight_with_jubble (h (js ! i)) (h (js ! k))"
  shows "has_jubble_goal (fold (assign_step js js i) ojs h (js ! i))"
  using assms
proof (induction ojs arbitrary: h)
  case Nil
  then show ?case by simp
next
  case (Cons oj ojs)
  let ?h1 = "assign_step js js i oj h"
  have g1: "store_goals_only h ?h1" by (rule assign_step_goals_only)
  show ?case
  proof (cases "oj = k")
    case True
    have "has_jubble_goal (?h1 (js ! i))"
      unfolding True using Cons.prems(2-6) by (rule assign_step_hit)
    with store_goals_only_preds(4) [OF fold_assign_goals_only [of ?h1 js i ojs]]
    show ?thesis by simp
  next
    case False
    with Cons.prems(1) have "k \<in> set ojs" by simp
    from Cons.IH [OF this Cons.prems(2), of ?h1] Cons.prems(3-6) store_goals_only_preds(1-3) [OF g1]
    show ?thesis by simp
  qed
qed

lemma fold_fold_assign_hit:
  assumes "i \<in> set xs" "k \<in> set ojs" "i \<noteq> k" "is_alive (h (js ! i))" "is_alive (h (js ! k))"
    "can_detect_jubble (h (js ! i)) (h (js ! k))" "will_fight_with_jubble (h (js ! i)) (h (js ! k))"
  shows "has_jubble_goal (fold (\<lambda>j. fold (assign_step js js j) ojs) xs h (js ! i))"
  using assms
proof (induction xs arbitrary: h)
  case Nil
  then show ?case by simp
next
  case (Cons x xs)
  let ?h1 = "fold (assign_step js js x) ojs h"
  have g1: "store_goals_only h ?h1" by (rule fold_assign_goals_only)
  show ?case
  proof (cases "x = i")
    case True
    have "has_jubble_goal (?h1 (js ! i))"
      unfolding True using Cons.prems(2-7) by (rule fold_assign_hit)
    with store_goals_only_preds(4) [OF fold_fold_assign_goals_only [of ?h1 js ojs xs]]
    show ?thesis by simp
  next
    case False
    with Cons.prems(1) have "i \<in> set xs" by simp
    from Cons.IH [OF this Cons.prems(2,3), of ?h1] Cons.prems(4-7)
      store_goals_only_preds(1-3) [OF g1]
    show ?thesis by simp
  qed
qed

lemma goal_phase_hit:
  assumes "i < length js" "k < length js" "i \<noteq> k"
    "is_alive (h (js ! i))" "is_alive (h (js ! k))"
    "can_detect_jubble (h (js ! i)) (h (js ! k))" "will_fight_with_jubble (h (js ! i)) (h (js ! k))"
  shows "has_jubble_goal (goal_phase js js h (js ! i))"
  unfolding goal_phase_def
  using assms by (intro fold_fold_assign_hit [where k = k]) simp_all

lemma goal_phase_two:
  assumes "a \<noteq> b" "\<not> has_jubble_goal (h a)" "\<not> has_jubble_goal (h b)"
    "is_alive (h a)" "is_alive (h b)"
    "can_detect_jubble (h a) (h b)" "will_fight_with_jubble (h a) (h b)"
    "can_detect_jubble (h b) (h a)" "will_fight_with_jubble (h b) (h a)"
  shows "goal_phase [a, b] [a, b] h = h(a := set_jubble_goal (h a) b, b := set_jubble_goal (h b) a)"
  using assms
  by (simp add: goal_phase_def assign_step_def set_jubble_goal_def can_detect_jubble_def
      can_detect_coord_def coord_in_range_def get_pos_def will_fight_with_jubble_def)

text \<open>Two alive jubbles of equal age that detect each other: the goal loops give each of
  them the other as its jubble goal.\<close>

theorem equal_age_goal_counterexample:
  "is_alive (store_pair 0) \<and> is_alive (store_pair 1) \<and>
   age (store_pair 0) = age (store_pair 1) \<and>
   can_detect_jubble (store_pair 0) (store_pair 1) \<and>
   can_detect_jubble (store_pair 1) (store_pair 0) \<and>
   has_jubble_goal (goal_phase [0, 1] [0, 1] store_pair 0) \<and>
   goal_jubble (goal_phase [0, 1] [0, 1] store_pair 0) = Some 1 \<and>
   has_jubble_goal (goal_phase [0, 1] [0, 1] store_pair 1) \<and>
   goal_jubble (goal_phase [0, 1] [0, 1] store_pair 1) = Some 0"
proof -
  have a: "is_alive (store_pair 0) \<and> is_alive (store_pair 1) \<and>
           age (store_pair 0) = age (store_pair 1)"
    by (simp add: store_pair_def pair_A_def pair_B_def new_jubble_def)
  have g: "has_jubble_goal (goal_phase [0, 1] [0, 1] store_pair 0) \<and>
     goal_jubble (goal_phase [0, 1] [0, 1] store_pair 0) = Some 1 \<and>
     has_jubble_goal (goal_phase [0, 1] [0, 1] store_pair 1) \<and>
     goal_jubble (goal_phase [0, 1] [0, 1] store_pair 1) = Some 0"
    unfolding pair_goal_phase by (simp add: set_jubble_goal_def)
  from a g pair_detect show ?thesis by blast
qed

text \<open>Claim C5, amended: \<^verbatim>\<open>will_fight_with_jubble\<close> holds between jubbles of equal age,
  so for two alive jubbles of equal age at different indices that detect each other, the goal
  loops leave both with a jubble goal; when they are the whole population and had no jubble
  goal before, each gets the other as its goal.\<close>

theorem equal_age_goal_assignment:
  assumes "i < length js" and "k < length js" and "i \<noteq> k"
    and "is_alive (h (js ! i))" and "is_alive (h (js ! k))"
    and "age (h (js ! i)) = age (h (js ! k))"
    and "can_detect_jubble (h (js ! i)) (h (js ! k))"
    and "can_detect_jubble (h (js ! k)) (h (js ! i))"
  shows "has_jubble_goal (goal_phase js js h (js ! i)) \<and>
         has_jubble_goal (goal_phase js js h (js ! k)) \<and>
         (length js = 2 \<and> js ! i \<noteq> js ! k \<and>
          \<not> has_jubble_goal (h (js ! i)) \<and> \<not> has_jubble_goal (h (js ! k)) \<longrightarrow>
            goal_jubble (goal_phase js js h (js ! i)) = Some (js ! k) \<and>
            goal_jubble (goal_phase js js h (js ! k)) = Some (js ! i))"
proof -
  from assms(6) have f: "will_fight_with_jubble (h (js ! i)) (h (js ! k))"
    "will_fight_with_jubble (h (js ! k)) (h (js ! i))"
    by (simp_all add: will_fight_with_jubble_def)
  have 1: "has_jubble_goal (goal_phase js js h (js ! i))"
    using assms(1-5,7) f(1) by (rule goal_phase_hit)
  have 2: "has_jubble_goal (goal_phase js js h (js ! k))"
    using assms(2,1) assms(3) [symmetric] assms(5,4,8) f(2) by (rule goal_phase_hit)
  have 3: "goal_jubble (goal_phase js js h (js ! i)) = Some (js ! k) \<and>
           goal_jubble (goal_phase js js h (js ! k)) = Some (js ! i)"
    if two: "length js = 2" and ne: "js ! i \<noteq> js ! k"
      and ng: "\<not> has_jubble_goal (h (js ! i))" "\<not> has_jubble_goal (h (js ! k))"
  proof -
    from two obtain a b where js: "js = [a, b]"
      by (cases js; cases "tl js") auto
    from assms(1-3) two have "i = 0 \<and> k = 1 \<or> i = 1 \<and> k = 0" by auto
    then show ?thesis
    proof
      assume ik: "i = 0 \<and> k = 1"
      with js ne ng assms(4,5,7,8) f
      have "goal_phase [a, b] [a, b] h =
              h(a := set_jubble_goal (h a) b, b := set_jubble_goal (h b) a)"
        by (intro goal_phase_two) simp_all
      with ik js ne show ?thesis by (simp add: set_jubble_goal_def)
    next
      assume ik: "i = 1 \<and> k = 0"
      with js ne ng assms(4,5,7,8) f
      have "goal_phase [a, b] [a, b] h =
              h(a := set_jubble_goal (h a) b, b := set_jubble_goal (h b) a)"
        by (intro goal_phase_two) simp_all
      with ik js ne show ?thesis by (simp add: set_jubble_goal_def)
    qed
  qed
  from 1 2 3 show ?thesis by blast
qed

theorem equal_age_goal_assignment_witness:
  "(0::nat) < length [0::nat, 1] \<and> (1::nat) < length [0::nat, 1] \<and> (0::nat) \<noteq> 1 \<and>
   is_alive (store_pair ([0, 1] ! 0)) \<and> is_alive (store_pair ([0, 1] ! 1)) \<and>
   age (store_pair ([0, 1] ! 0)) = age (store_pair ([0, 1] ! 1)) \<and>
   can_detect_jubble (store_pair ([0, 1] ! 0)) (store_pair ([0, 1] ! 1)) \<and>
   can_detect_jubble (store_pair ([0, 1] ! 1)) (store_pair ([0, 1] ! 0)) \<and>
   \<not> has_jubble_goal (store_pair 0) \<and> \<not> has_jubble_goal (store_pair 1) \<and>
   has_jubble_goal (goal_phase [0, 1] [0, 1] store_pair 0) \<and>
   has_jubble_goal (goal_phase [0, 1] [0, 1] store_pair 1) \<and>
   goal_jubble (goal_phase [0, 1] [0, 1] store_pair 0) = Some 1 \<and>
   goal_jubble (goal_phase [0, 1] [0, 1] store_pair 1) = Some 0"
proof -
  have a: "is_alive (store_pair 0)" "is_alive (store_pair 1)"
    "age (store_pair 0) = age (store_pair 1)"
    "\<not> has_jubble_goal (store_pair 0)" "\<not> has_jubble_goal (store_pair 1)"
    by (simp_all add: store_pair_def pair_A_def pair_B_def new_jubble_def)
  have "has_jubble_goal (goal_phase [0, 1] [0, 1] store_pair ([0, 1] ! 0)) \<and>
        has_jubble_goal (goal_phase [0, 1] [0, 1] store_pair ([0, 1] ! 1)) \<and>
        (length [0::nat, 1] = 2 \<and> [0::nat, 1] ! 0 \<noteq> [0, 1] ! 1 \<and>
         \<not> has_jubble_goal (store_pair ([0, 1] ! 0)) \<and>
         \<not> has_jubble_goal (store_pair ([0, 1] ! 1)) \<longrightarrow>
           goal_jubble (goal_phase [0, 1] [0, 1] store_pair ([0, 1] ! 0)) = Some ([0, 1] ! 1) \<and>
           goal_jubble (goal_phase [0, 1] [0, 1] store_pair ([0, 1] ! 1)) = Some ([0, 1] ! 0))"
    by (rule equal_age_goal_assignment) (simp_all del: One_nat_def add: a pair_detect nth_Cons')
  then have "has_jubble_goal (goal_phase [0, 1] [0, 1] store_pair 0) \<and>
        has_jubble_goal (goal_phase [0, 1] [0, 1] store_pair 1) \<and>
        goal_jubble (goal_phase [0, 1] [0, 1] store_pair 0) = Some 1 \<and>
        goal_jubble (goal_phase [0, 1] [0, 1] store_pair 1) = Some 0"
    using a by (simp del: One_nat_def add: nth_Cons')
  moreover have "(0::nat) < length [0::nat, 1] \<and> (1::nat) < length [0::nat, 1] \<and> (0::nat) \<noteq> 1"
    by simp
  moreover have "is_alive (store_pair ([0, 1] ! 0)) \<and> is_alive (store_pair ([0, 1] ! 1)) \<and>
   age (store_pair ([0, 1] ! 0)) = age (store_pair ([0, 1] ! 1)) \<and>
   can_detect_jubble (store_pair ([0, 1] ! 0)) (store_pair ([0, 1] ! 1)) \<and>
   can_detect_jubble (store_pair ([0, 1] ! 1)) (store_pair ([0, 1] ! 0))"
    using a pair_detect by (simp del: One_nat_def add: nth_Cons')
  ultimately show ?thesis using a by blast
qed

subsection \<open>Claim C2\<close>

text \<open>Claim C2 at two concrete worlds. \<^verbatim>\<open>copy.copy\<close> copies the list, not the jubbles:
  the list of one alive jubble without goals is returned holding the same address, and the
  jubble stored there has moved and aged; with two jubbles that detect each other, the goal
  loops change the jubble stored at the address the old list holds.\<close>

theorem update_jubbles_shares_agents:
  "update_jubbles rnd_none store_A [0] =
     Inr (store_A(0 := (store_A 0)\<lparr> pos_x := 101, age := 1 \<rparr>), [0]) \<and>
   (store_A(0 := (store_A 0)\<lparr> pos_x := 101, age := 1 \<rparr>)) 0 \<noteq> store_A 0 \<and>
   goal_phase [0, 1] [0, 1] store_pair 0 = set_jubble_goal (store_pair 0) 1 \<and>
   set_jubble_goal (store_pair 0) 1 \<noteq> store_pair 0"
proof -
  have u: "update store_A (1 / 2, 0) (store_A 0) = Inr ((store_A 0)\<lparr> pos_x := 101, age := 1 \<rparr>)"
    by (simp add: update_def store_A_def jubble_A_def new_jubble_def blueMoon_def CHANCE_OF_TURN_def
        move_one_unit_def to_cartesian_def correct_offmap_drift_def get_older_def Let_def
        DEF_ANGLE_def DEF_SPEED_def DEATH_AGE_def range_simps)
  have f: "fight_phase store_A [0] = Inr store_A"
    by (simp add: fight_step_def kill_decision_def store_A_def jubble_A_def new_jubble_def)
  have g: "goal_phase [0] [0] store_A = store_A"
    by (simp add: goal_phase_def assign_step_def)
  have p: "prune store_A [0] = Inr [0]"
    by (simp add: will_be_drawn_def store_A_def jubble_A_def new_jubble_def)
  have 1: "update_jubbles rnd_none store_A [0] =
     Inr (store_A(0 := (store_A 0)\<lparr> pos_x := 101, age := 1 \<rparr>), [0])"
    by (simp only: update_jubbles_def f sum.case Let_def g p update_all.simps rnd_none_def u)
  have 2: "(store_A(0 := (store_A 0)\<lparr> pos_x := 101, age := 1 \<rparr>)) 0 \<noteq> store_A 0"
    by (simp add: store_A_def jubble_A_def new_jubble_def)
  have 3: "goal_phase [0, 1] [0, 1] store_pair 0 = set_jubble_goal (store_pair 0) 1"
    unfolding pair_goal_phase by simp
  have 4: "set_jubble_goal (store_pair 0) 1 \<noteq> store_pair 0"
    by (simp add: store_pair_def pair_A_def new_jubble_def set_jubble_goal_def)
  from 1 2 3 4 show ?thesis by blast
qed

subsection \<open>Claim C7\<close>

lemma hypot_0_left: "hypot 0 b = \<bar>b\<bar>"
  by (simp add: hypot_def)

lemma hypot_diag: "0 \<le> a \<Longrightarrow> hypot (a * (sqrt 2 / 2)) (a * (sqrt 2 / 2)) = a"
proof -
  assume a: "0 \<le> a"
  have "(a * (sqrt 2 / 2))\<^sup>2 + (a * (sqrt 2 / 2))\<^sup>2 = a\<^sup>2"
    by (simp add: power_mult_distrib power_divide)
  then have "hypot (a * (sqrt 2 / 2)) (a * (sqrt 2 / 2)) = sqrt (a\<^sup>2)"
    by (simp only: hypot_def)
  with a show ?thesis by simp
qed

lemma dist_pt_offset:
  "dist_pt (x, y) (x + c, y + d) = hypot c d" "dist_pt (x, y) (x + c, y - d) = hypot c d"
  by (simp_all add: dist_pt_def hypot_def)

lemma atan2_diag:
  "0 < a \<Longrightarrow> atan2 (a * (sqrt 2 / 2)) (a * (sqrt 2 / 2)) = pi / 4"
  "0 < a \<Longrightarrow> atan2 (- (a * (sqrt 2 / 2))) (a * (sqrt 2 / 2)) = - (pi / 4)"
  by (simp_all add: atan2_def arctan_one arctan_minus)

lemma cone_edges_heading_right:
  "can_detect_coord jubble_A (100 + 150 * (sqrt 2 / 2)) (100 + 150 * (sqrt 2 / 2))"
  "can_detect_coord jubble_A (100 + 150 * (sqrt 2 / 2)) (100 - 150 * (sqrt 2 / 2))"
proof -
  have h: "hypot (150 * (sqrt 2 / 2)) (150 * (sqrt 2 / 2)) = 150"
    by (rule hypot_diag) simp
  have a: "atan2 (150 * (sqrt 2 / 2)) (150 * (sqrt 2 / 2)) = pi / 4"
    "atan2 (- (150 * (sqrt 2 / 2))) (150 * (sqrt 2 / 2)) = - (pi / 4)"
    by (rule atan2_diag, simp)+
  have p: "get_pos jubble_A = (100, 100)" "pos_x jubble_A = 100" "pos_y jubble_A = 100"
    "angle jubble_A = 0" "detection_radius jubble_A = 150"
    by (simp_all add: get_pos_def jubble_A_def new_jubble_def DEF_ANGLE_def
        DEF_DETECTION_RADIUS_def)
  have e: "100 + 150 * (sqrt 2 / 2) - 100 = 150 * (sqrt 2 / 2)"
    "100 - 150 * (sqrt 2 / 2) - 100 = - (150 * (sqrt 2 / 2))" by simp_all
  show "can_detect_coord jubble_A (100 + 150 * (sqrt 2 / 2)) (100 + 150 * (sqrt 2 / 2))"
    unfolding can_detect_coord_def coord_in_range_def Let_def to_polar_def p dist_pt_offset h e a
      fst_conv DEF_DETECTION_SLICE_def
    by simp
  show "can_detect_coord jubble_A (100 + 150 * (sqrt 2 / 2)) (100 - 150 * (sqrt 2 / 2))"
    unfolding can_detect_coord_def coord_in_range_def Let_def to_polar_def p dist_pt_offset h e a
      fst_conv DEF_DETECTION_SLICE_def
    by simp
qed

text \<open>Claim C7 at a concrete jubble: it heads up (\<^verbatim>\<open>ANGLE_UP\<close>, as
  \<^verbatim>\<open>_correct_offmap_drift\<close> sets it at the bottom edge), and the point 50 units straight
  ahead is inside the detection radius and on the axis of the cone; \<^verbatim>\<open>_can_detect_coord\<close>
  returns False for it, because \<^verbatim>\<open>atan2\<close> gives \<open>- pi / 2\<close> for this direction and the
  edges of the cone are \<open>5 * pi / 4\<close> and \<open>7 * pi / 4\<close>. For a jubble that heads right
  (heading 0) the two points on the edges of the cone at the distance of the detection
  radius are detected.\<close>

theorem can_detect_heading_up:
  "to_cartesian (angle jubble_up) 50 = (0, - 50) \<and>
   can_detect_spec jubble_up 100 400 \<and> \<not> can_detect_coord jubble_up 100 400 \<and>
   can_detect_coord jubble_A (100 + 150 * (sqrt 2 / 2)) (100 + 150 * (sqrt 2 / 2)) \<and>
   can_detect_coord jubble_A (100 + 150 * (sqrt 2 / 2)) (100 - 150 * (sqrt 2 / 2))"
proof -
  have e: "pi * 3 / 2 = 3 / 2 * pi" by simp
  have t: "cos (pi * 3 / 2) = 0" "sin (pi * 3 / 2) = - 1"
    unfolding e by (rule cos_3over2_pi, rule sin_3over2_pi)
  have c: "cos (pi / 4) \<le> 1" by simp
  have 1: "to_cartesian (angle jubble_up) 50 = (0, - 50)"
    by (simp add: to_cartesian_def jubble_up_def ANGLE_UP_def t)
  have 2: "can_detect_spec jubble_up 100 400"
    using c by (simp add: can_detect_spec_def in_detection_cone_def jubble_up_def new_jubble_def
        get_pos_def dist_pt_def hypot_0_left ANGLE_UP_def t DEF_DETECTION_SLICE_def
        DEF_DETECTION_RADIUS_def)
  have n: "\<not> pi \<le> 0" using pi_gt_zero by linarith
  have 3: "\<not> can_detect_coord jubble_up 100 400"
    by (simp add: n can_detect_coord_def jubble_up_def new_jubble_def to_polar_def atan2_def
        ANGLE_UP_def DEF_DETECTION_SLICE_def Let_def)
  from 1 2 3 cone_edges_heading_right show ?thesis by blast
qed

subsection \<open>Claim C4\<close>

lemma unit_combo:
  fixes a b :: real
  assumes "a\<^sup>2 + b\<^sup>2 = 1"
  shows "a + 3 / 5 * b \<le> 7 / 6"
proof -
  have "0 \<le> (a - 5 / 6)\<^sup>2 + (b - 1 / 2)\<^sup>2" by simp
  also have "\<dots> = (a\<^sup>2 + b\<^sup>2) - 5 / 3 * a - b + 34 / 36"
    by (simp add: power2_eq_square algebra_simps)
  finally show ?thesis using assms by simp
qed

lemma unit_bounds:
  fixes a b :: real
  assumes "a\<^sup>2 + b\<^sup>2 = 1"
  shows "\<bar>a\<bar> \<le> 1" "\<bar>b\<bar> \<le> 1"
proof -
  have "a\<^sup>2 \<le> 1" "b\<^sup>2 \<le> 1" using assms zero_le_power2 [of a] zero_le_power2 [of b] by linarith+
  then show "\<bar>a\<bar> \<le> 1" "\<bar>b\<bar> \<le> 1" by (simp_all add: abs_square_le_1)
qed

lemma near_inside:
  assumes "30 \<le> x" "x \<le> 610" "30 \<le> y" "y \<le> 450" "a\<^sup>2 + b\<^sup>2 = 1"
  shows "near (x + a) (y + b)"
proof -
  have u: "a\<^sup>2 + (- b)\<^sup>2 = 1" "(- a)\<^sup>2 + b\<^sup>2 = 1" "(- a)\<^sup>2 + (- b)\<^sup>2 = 1"
    using assms(5) by simp_all
  note c = unit_combo [OF assms(5)] unit_combo [OF u(1)] unit_combo [OF u(2)] unit_combo [OF u(3)]
  note b = unit_bounds [OF assms(5)]
  show ?thesis
    unfolding near_def pen_def using assms(1-4) c b
    unfolding abs_le_iff by argo
qed

lemma near_low:
  assumes "near x y" "y \<le> 30" "\<bar>s\<bar> \<le> 1 / 2" "5 / 6 \<le> c" "c \<le> 1"
  shows "near (x - s) (y + c)"
  using assms unfolding near_def pen_def abs_le_iff by argo

lemma near_high:
  assumes "near x y" "450 \<le> y" "\<bar>s\<bar> \<le> 1 / 2" "5 / 6 \<le> c" "c \<le> 1"
  shows "near (x + s) (y - c)"
  using assms unfolding near_def pen_def abs_le_iff by argo

lemma near_left:
  assumes "near x y" "30 < y" "y < 450" "x < 30" "\<bar>s\<bar> \<le> 1 / 2" "5 / 6 \<le> c" "c \<le> 1"
  shows "near (x + c) (y + s)"
  using assms unfolding near_def pen_def abs_le_iff by argo

lemma near_right:
  assumes "near x y" "30 < y" "y < 450" "610 < x" "\<bar>s\<bar> \<le> 1 / 2" "5 / 6 \<le> c" "c \<le> 1"
  shows "near (x - c) (y - s)"
  using assms unfolding near_def pen_def abs_le_iff by argo

lemma near_bounds: "near x y \<Longrightarrow> 28 \<le> x \<and> x \<le> 612 \<and> 29 \<le> y \<and> y \<le> 451"
  unfolding near_def pen_def by argo

lemma small_turn:
  assumes "\<bar>d\<bar> \<le> TURN_ANGLE"
  shows "\<bar>sin d\<bar> \<le> 1 / 2" and "5 / 6 \<le> cos d" and "cos d \<le> 1"
proof -
  from assms have d: "- (pi / 6) \<le> d" "d \<le> pi / 6" "\<bar>d\<bar> \<le> pi / 6"
    using pi_gt_zero by (simp_all add: TURN_ANGLE_def abs_le_iff)
  have "sin d \<le> sin (pi / 6)"
    using d pi_gt_zero by (intro sin_monotone_2pi_le) argo+
  moreover have "sin (- (pi / 6)) \<le> sin d"
    using d pi_gt_zero by (intro sin_monotone_2pi_le) argo+
  ultimately show "\<bar>sin d\<bar> \<le> 1 / 2" by (simp add: sin_30 abs_le_iff)
  have "cos (pi / 6) \<le> cos \<bar>d\<bar>"
    using d(3) pi_gt_zero by (intro cos_monotone_0_pi_le) argo+
  moreover have "5 / 6 \<le> sqrt 3 / 2"
  proof -
    have "(5 / 3)\<^sup>2 \<le> (3::real)" by (simp add: power2_eq_square)
    then have "5 / 3 \<le> sqrt 3" by (rule real_le_rsqrt)
    then show ?thesis by simp
  qed
  ultimately show "5 / 6 \<le> cos d" by (simp add: cos_30)
  show "cos d \<le> 1" by simp
qed

lemma correct_offmap_drift_fields:
  "pos_x (correct_offmap_drift j) = pos_x j"
  "pos_y (correct_offmap_drift j) = pos_y j"
  "speed (correct_offmap_drift j) = speed j"
  "has_coord_goal (correct_offmap_drift j) = has_coord_goal j"
  "has_jubble_goal (correct_offmap_drift j) = has_jubble_goal j"
  by (simp_all add: correct_offmap_drift_def Let_def)

lemma correct_offmap_drift_angle:
  "angle (correct_offmap_drift j) =
     (if snd VERTICAL_RANGE \<le> pos_y j then ANGLE_UP
      else if pos_y j \<le> fst VERTICAL_RANGE then ANGLE_DOWN
      else if snd HORIZONTAL_RANGE \<le> pos_x j then ANGLE_LEFT
      else if pos_x j \<le> fst HORIZONTAL_RANGE then ANGLE_RIGHT
      else angle j)"
  by (simp add: correct_offmap_drift_def Let_def)

lemma correct_offmap_drift_reset:
  "\<not> inside (correct_offmap_drift j) \<Longrightarrow>
     angle (correct_offmap_drift j) = reset_angle (correct_offmap_drift j)"
  by (auto simp: correct_offmap_drift_angle reset_angle_def inside_def
      correct_offmap_drift_fields)

lemma near_after_move:
  assumes inv: "drift_inv j" and d: "\<bar>d\<bar> \<le> TURN_ANGLE"
  shows "near (pos_x j + cos (angle j + d)) (pos_y j + sin (angle j + d))"
proof (cases "inside j")
  case True
  then show ?thesis
    by (intro near_inside) (simp_all add: inside_def range_simps)
next
  case False
  note t = small_turn [OF d]
  from inv False have a: "angle j = reset_angle j" and n: "near (pos_x j) (pos_y j)"
    by (simp_all add: drift_inv_def)
  have e: "pi * 3 / 2 = 3 / 2 * pi" by simp
  have up: "cos (pi * 3 / 2) = 0" "sin (pi * 3 / 2) = - 1"
    unfolding e by (rule cos_3over2_pi, rule sin_3over2_pi)
  from False have "\<not> (30 \<le> pos_x j \<and> pos_x j \<le> 610 \<and> 30 \<le> pos_y j \<and> pos_y j \<le> 450)"
    by (simp add: inside_def range_simps)
  then have "450 \<le> pos_y j \<or> pos_y j \<le> 30 \<or>
      (30 < pos_y j \<and> pos_y j < 450 \<and> 610 < pos_x j) \<or>
      (30 < pos_y j \<and> pos_y j < 450 \<and> pos_x j < 30)"
    by argo
  then consider (hi) "450 \<le> pos_y j" | (lo) "pos_y j \<le> 30"
    | (right) "30 < pos_y j" "pos_y j < 450" "610 < pos_x j"
    | (left) "30 < pos_y j" "pos_y j < 450" "pos_x j < 30"
    by blast
  then show ?thesis
  proof cases
    case hi
    then have ang: "angle j = pi * 3 / 2"
      by (simp add: a reset_angle_def range_simps ANGLE_UP_def)
    have "cos (angle j + d) = sin d" "sin (angle j + d) = - cos d"
      unfolding ang by (simp_all add: cos_add sin_add up)
    with near_high [OF n hi t] show ?thesis by simp
  next
    case lo
    then have ang: "angle j = pi / 2"
      by (simp add: a reset_angle_def range_simps ANGLE_DOWN_def)
    have "cos (angle j + d) = - sin d" "sin (angle j + d) = cos d"
      unfolding ang by (simp_all add: cos_add sin_add)
    with near_low [OF n lo t] show ?thesis by simp
  next
    case right
    then have ang: "angle j = pi"
      by (simp add: a reset_angle_def range_simps ANGLE_LEFT_def)
    have "cos (angle j + d) = - cos d" "sin (angle j + d) = - sin d"
      unfolding ang by (simp_all add: cos_add sin_add)
    with near_right [OF n right t] show ?thesis by simp
  next
    case left
    then have ang: "angle j = 0"
      by (simp add: a reset_angle_def range_simps ANGLE_RIGHT_def)
    have "cos (angle j + d) = cos d" "sin (angle j + d) = sin d"
      unfolding ang by simp_all
    with near_left [OF n left t] show ?thesis by simp
  qed
qed

lemma drift_inv_move:
  assumes inv: "drift_inv j" and d: "\<bar>d\<bar> \<le> TURN_ANGLE"
  shows "drift_inv (move_one_unit (j\<lparr> angle := angle j + d \<rparr>))"
proof -
  let ?j1 = "j\<lparr> angle := angle j + d,
                pos_x := pos_x j + cos (angle j + d), pos_y := pos_y j + sin (angle j + d) \<rparr>"
  from inv have sp: "speed j = 1" by (simp add: drift_inv_def DEF_SPEED_def)
  then have m: "move_one_unit (j\<lparr> angle := angle j + d \<rparr>) = correct_offmap_drift ?j1"
    by (simp add: move_one_unit_def to_cartesian_def Let_def)
  have "near (pos_x ?j1) (pos_y ?j1)"
    using near_after_move [OF inv d] by simp
  with inv show ?thesis
    unfolding m drift_inv_def
    using correct_offmap_drift_reset [of ?j1]
    by (simp add: correct_offmap_drift_fields)
qed

lemma drift_inv_get_older: "drift_inv j \<Longrightarrow> drift_inv (get_older j)"
  by (simp add: drift_inv_def get_older_def kill_def Let_def inside_def reset_angle_def)

lemma drift_inv_update:
  assumes inv: "drift_inv j" and d: "\<bar>snd r\<bar> \<le> TURN_ANGLE"
  shows "\<exists>j'. update h r j = Inr j' \<and> drift_inv j'"
proof (cases "is_alive j")
  case False
  with inv show ?thesis by (simp add: update_def drift_inv_get_older)
next
  case True
  from inv have g: "\<not> has_coord_goal j" "\<not> has_jubble_goal j" by (simp_all add: drift_inv_def)
  show ?thesis
  proof (cases "blueMoon (fst r) CHANCE_OF_TURN")
    case True
    with \<open>is_alive j\<close> g have
      "update h r j = Inr (get_older (move_one_unit (j\<lparr> angle := angle j + snd r \<rparr>)))"
      by (simp add: update_def add_random_angle_shift_def)
    with drift_inv_get_older [OF drift_inv_move [OF inv d]] show ?thesis by simp
  next
    case False
    have z: "\<bar>0::real\<bar> \<le> TURN_ANGLE" using pi_gt_zero by (simp add: TURN_ANGLE_def)
    from False \<open>is_alive j\<close> g have
      "update h r j = Inr (get_older (move_one_unit (j\<lparr> angle := angle j + 0 \<rparr>)))"
      by (simp add: update_def)
    with drift_inv_get_older [OF drift_inv_move [OF inv z]] show ?thesis by simp
  qed
qed

lemma drift_inv_run:
  assumes "drift_inv j" and "\<forall>r \<in> set rs. \<bar>snd r\<bar> \<le> TURN_ANGLE"
  shows "\<exists>j'. run_updates h rs j = Inr j' \<and> drift_inv j'"
  using assms
proof (induction rs arbitrary: j)
  case Nil
  then show ?case by simp
next
  case (Cons r rs)
  from Cons.prems have "\<bar>snd r\<bar> \<le> TURN_ANGLE" by simp
  from drift_inv_update [OF Cons.prems(1) this, of h] obtain j1 where
    u: "update h r j = Inr j1" and i: "drift_inv j1" by blast
  from Cons.IH [OF i] Cons.prems(2) obtain j' where
    "run_updates h rs j1 = Inr j'" "drift_inv j'" by auto
  with u show ?case by simp
qed

lemma inside_drift_inv:
  "inside j \<Longrightarrow> \<not> has_coord_goal j \<Longrightarrow> \<not> has_jubble_goal j \<Longrightarrow> speed j = DEF_SPEED \<Longrightarrow>
     drift_inv j"
  unfolding drift_inv_def near_def pen_def inside_def range_simps
  by (simp split: if_splits) argo

text \<open>Claim C4, amended: \<^verbatim>\<open>update\<close> moves the jubble first and only then resets the
  heading, so a jubble can step over an edge, but not far. For every jubble of speed 1 that
  starts inside the playable rectangle and has no goals, after any number of \<^verbatim>\<open>update\<close>
  calls whose random turns are within \<^verbatim>\<open>TURN_ANGLE\<close>, the call returns, the jubble still
  has no goals, its position is at most 2 beyond the left and right edges and at most 1
  beyond the top and bottom edges, and when it is outside the rectangle its heading is the
  one \<^verbatim>\<open>_correct_offmap_drift\<close> sets there.\<close>

theorem boundary_overshoot_bounded:
  assumes "inside j" and "\<not> has_coord_goal j" and "\<not> has_jubble_goal j"
    and "speed j = DEF_SPEED" and "\<forall>r \<in> set rs. \<bar>snd r\<bar> \<le> TURN_ANGLE"
  shows "\<exists>j'. run_updates h rs j = Inr j' \<and>
           \<not> has_coord_goal j' \<and> \<not> has_jubble_goal j' \<and>
           fst HORIZONTAL_RANGE - 2 \<le> pos_x j' \<and> pos_x j' \<le> snd HORIZONTAL_RANGE + 2 \<and>
           fst VERTICAL_RANGE - 1 \<le> pos_y j' \<and> pos_y j' \<le> snd VERTICAL_RANGE + 1 \<and>
           (\<not> inside j' \<longrightarrow> angle j' = reset_angle j')"
proof -
  from drift_inv_run [OF inside_drift_inv [OF assms(1-4)] assms(5), of h] obtain j' where
    r: "run_updates h rs j = Inr j'" and i: "drift_inv j'" by blast
  from i near_bounds [of "pos_x j'" "pos_y j'"] have
    "\<not> has_coord_goal j' \<and> \<not> has_jubble_goal j' \<and>
           fst HORIZONTAL_RANGE - 2 \<le> pos_x j' \<and> pos_x j' \<le> snd HORIZONTAL_RANGE + 2 \<and>
           fst VERTICAL_RANGE - 1 \<le> pos_y j' \<and> pos_y j' \<le> snd VERTICAL_RANGE + 1 \<and>
           (\<not> inside j' \<longrightarrow> angle j' = reset_angle j')"
    by (simp add: drift_inv_def range_simps)
  with r show ?thesis by blast
qed

lemma sq_lower:
  fixes u s :: real
  assumes "0 < u" "u < 1 / 2" "0 < s" "s\<^sup>2 = u / 2"
  shows "u < s"
proof -
  have "u\<^sup>2 = u * u" by (rule power2_eq_square)
  also have "u * u < 1 / 2 * u" using assms(2,1) by (rule mult_strict_right_mono)
  also have "1 / 2 * u = s\<^sup>2" using assms(4) by simp
  finally have "u\<^sup>2 < s\<^sup>2" .
  then show ?thesis
  proof (rule power2_less_imp_less)
    show "0 \<le> s" using assms(3) by simp
  qed
qed

lemma s8: "1 - sqrt 2 / 2 < sin (pi / 8)" "sin (pi / 8) < 1" "0 < cos (pi / 8)"
proof -
  have p: "0 < sin (pi / 8)" by (intro sin_gt_zero) (use pi_gt_zero in simp_all)
  have e: "2 * (pi / 8) = pi / 4" by simp
  have "cos (pi / 4) = 1 - 2 * (sin (pi / 8))\<^sup>2"
    using cos_double_sin [of "pi / 8"] by (simp only: e)
  then have "sqrt 2 / 2 = 1 - 2 * (sin (pi / 8))\<^sup>2" by (simp only: cos_45)
  then have sq: "(sin (pi / 8))\<^sup>2 = (1 - sqrt 2 / 2) / 2" by argo
  have r2: "1 < sqrt 2" by simp
  have "sqrt 2 < 2" by (rule real_less_lsqrt) simp_all
  with r2 have u: "0 < 1 - sqrt 2 / 2" "1 - sqrt 2 / 2 < 1 / 2" by simp_all
  from u p sq show "1 - sqrt 2 / 2 < sin (pi / 8)" by (rule sq_lower)
  show "0 < cos (pi / 8)" by (intro cos_gt_zero) (use pi_gt_zero in simp_all)
  have "sin (pi / 8) < sin (pi / 2)"
    by (intro sin_monotone_2pi) (use pi_gt_zero in simp_all)
  then show "sin (pi / 8) < 1" by simp
qed

lemma update_free_step:
  assumes "is_alive j" "\<not> has_jubble_goal j" "\<not> has_coord_goal j" "speed j = 1"
    "real_of_int (age j + 1) < DEATH_AGE"
  shows "update h r j = Inr (free_step r j)"
  using assms
  by (simp add: update_def free_step_def blueMoon_def add_random_angle_shift_def
      move_one_unit_def to_cartesian_def correct_offmap_drift_def get_older_def Let_def
      range_simps)

lemma corner_step1: "update h (1 / 2, 0) corner_0 = Inr corner_1"
proof -
  have "update h (1 / 2, 0) corner_0 = Inr (free_step (1 / 2, 0) corner_0)"
    by (rule update_free_step)
      (simp_all add: corner_0_def new_jubble_def DEF_SPEED_def DEATH_AGE_def)
  also have "free_step (1 / 2, 0) corner_0 = corner_1"
    by (simp add: free_step_def corner_1_def corner_0_def new_jubble_def CHANCE_OF_TURN_def
        DEF_ANGLE_def Let_def)
  finally show ?thesis .
qed

lemma turned_down:
  "cos (ANGLE_DOWN + pi / 8) = - sin (pi / 8)" "sin (ANGLE_DOWN + pi / 8) = cos (pi / 8)"
  "cos (pi / 4 + ANGLE_DOWN) = - (sqrt 2 / 2)"
  "sin (pi / 4 + ANGLE_DOWN) = sqrt 2 / 2"
  unfolding ANGLE_DOWN_def cos_add sin_add by (simp_all add: sin_45 cos_45)

lemma eighth_bounds:
  "1 - sqrt 2 / 2 < sin (pi / 8)" "sin (pi / 8) < 1" "- 1 \<le> sin (pi / 8)"
  "0 < cos (pi / 8)" "cos (pi / 8) \<le> 1" "1 < sqrt 2" "sqrt 2 < 2"
proof -
  show "sqrt 2 < 2" by (rule real_less_lsqrt) simp_all
qed (simp_all add: s8)

lemma far_bounds:
  "\<not> 420 \<le> cos (pi / 8)" "\<not> 420 \<le> cos (pi / 8) + sqrt 2 / 2"
proof -
  have "cos (pi / 8) \<le> 1" by simp
  with eighth_bounds(7) show "\<not> 420 \<le> cos (pi / 8)" "\<not> 420 \<le> cos (pi / 8) + sqrt 2 / 2"
    by argo+
qed

lemma corner_step2: "update h (0, pi / 8) corner_1 = Inr corner_2"
proof -
  have "update h (0, pi / 8) corner_1 = Inr (free_step (0, pi / 8) corner_1)"
    by (rule update_free_step)
      (simp_all add: corner_1_def corner_0_def new_jubble_def DEF_SPEED_def DEATH_AGE_def)
  also have "free_step (0, pi / 8) corner_1 = corner_2"
    using eighth_bounds
    by (simp add: free_step_def corner_2_def corner_1_def corner_0_def new_jubble_def
        CHANCE_OF_TURN_def Let_def turned_down far_bounds; argo)
  finally show ?thesis .
qed

lemma corner_step3: "update h (0, pi / 8) corner_2 = Inr corner_3"
proof -
  have "update h (0, pi / 8) corner_2 = Inr (free_step (0, pi / 8) corner_2)"
    by (rule update_free_step)
      (simp_all add: corner_2_def corner_0_def new_jubble_def DEF_SPEED_def DEATH_AGE_def)
  also have "free_step (0, pi / 8) corner_2 = corner_3"
    using eighth_bounds
    by (simp add: free_step_def corner_3_def corner_2_def corner_0_def new_jubble_def
        CHANCE_OF_TURN_def Let_def turned_down far_bounds; argo)
  finally show ?thesis .
qed

lemma edge_step: "update h (1 / 2, 0) edge_0 = Inr edge_1"
proof -
  have "update h (1 / 2, 0) edge_0 = Inr (free_step (1 / 2, 0) edge_0)"
    by (rule update_free_step)
      (simp_all add: edge_0_def new_jubble_def DEF_SPEED_def DEATH_AGE_def)
  also have "free_step (1 / 2, 0) edge_0 = edge_1"
    by (simp add: free_step_def edge_1_def edge_0_def new_jubble_def CHANCE_OF_TURN_def
        ANGLE_LEFT_def Let_def)
  finally show ?thesis .
qed

lemma corner_run:
  "run_updates h [(1 / 2, 0), (0, pi / 8), (0, pi / 8)] corner_0 = Inr corner_3"
  by (simp only: run_updates.simps corner_step1 corner_step2 corner_step3 sum.case)

lemma corner_3_out: "pos_x corner_3 < 30"
proof -
  have "pos_x corner_3 = 31 - sin (pi / 8) - sqrt 2 / 2" by (simp add: corner_3_def)
  with eighth_bounds(1) show ?thesis by argo
qed

text \<open>A jubble on the left edge that heads left is at \<open>x = 29\<close> after one tick; a jubble
  constructed at \<open>(30, 30)\<close> is left of the rectangle after three ticks.\<close>

theorem boundary_exit_counterexample:
  "inside edge_0 \<and> \<not> has_coord_goal edge_0 \<and> \<not> has_jubble_goal edge_0 \<and>
   update store_A (1 / 2, 0) edge_0 = Inr edge_1 \<and>
   pos_x edge_1 = 29 \<and> pos_x edge_1 < fst HORIZONTAL_RANGE \<and>
   inside corner_0 \<and> \<not> has_coord_goal corner_0 \<and> \<not> has_jubble_goal corner_0 \<and>
   corner_0 = new_jubble 1 30 30 (0, 0, 0) \<and>
   run_updates store_A [(1 / 2, 0), (0, pi / 8), (0, pi / 8)] corner_0 = Inr corner_3 \<and>
   pos_x corner_3 < fst HORIZONTAL_RANGE"
proof -
  have e: "inside edge_0 \<and> \<not> has_coord_goal edge_0 \<and> \<not> has_jubble_goal edge_0 \<and>
     pos_x edge_1 = 29 \<and> pos_x edge_1 < fst HORIZONTAL_RANGE"
    by (simp add: inside_def edge_0_def edge_1_def new_jubble_def range_simps)
  have c: "inside corner_0 \<and> \<not> has_coord_goal corner_0 \<and> \<not> has_jubble_goal corner_0 \<and>
     corner_0 = new_jubble 1 30 30 (0, 0, 0)"
    by (simp add: inside_def corner_0_def new_jubble_def range_simps)
  have x: "pos_x corner_3 < fst HORIZONTAL_RANGE"
    using corner_3_out by (simp add: range_simps)
  from e c x edge_step [of store_A] corner_run [of store_A] show ?thesis by blast
qed

theorem boundary_overshoot_bounded_witness:
  "inside corner_0 \<and> \<not> has_coord_goal corner_0 \<and> \<not> has_jubble_goal corner_0 \<and>
   speed corner_0 = DEF_SPEED \<and> \<bar>0::real\<bar> \<le> TURN_ANGLE \<and> \<bar>pi / 8\<bar> \<le> TURN_ANGLE \<and>
   run_updates store_A [(1 / 2, 0), (0, pi / 8), (0, pi / 8)] corner_0 = Inr corner_3 \<and>
   fst HORIZONTAL_RANGE - 2 \<le> pos_x corner_3 \<and> pos_x corner_3 \<le> snd HORIZONTAL_RANGE + 2 \<and>
   fst VERTICAL_RANGE - 1 \<le> pos_y corner_3 \<and> pos_y corner_3 \<le> snd VERTICAL_RANGE + 1 \<and>
   \<not> inside corner_3 \<and> angle corner_3 = reset_angle corner_3"
proof -
  have c: "inside corner_0" "\<not> has_coord_goal corner_0" "\<not> has_jubble_goal corner_0"
    "speed corner_0 = DEF_SPEED"
    by (simp_all add: inside_def corner_0_def new_jubble_def range_simps)
  have t: "\<bar>0::real\<bar> \<le> TURN_ANGLE" "\<bar>pi / 8\<bar> \<le> TURN_ANGLE"
    using pi_gt_zero by (simp_all add: TURN_ANGLE_def)
  then have a: "\<forall>r \<in> set [(1 / 2, 0), (0, pi / 8), (0, pi / 8)]. \<bar>snd r\<bar> \<le> TURN_ANGLE"
    by simp
  have o: "\<not> inside corner_3"
    using corner_3_out by (simp add: inside_def range_simps)
  from boundary_overshoot_bounded [OF c a, of store_A] corner_run [of store_A] c t o
  show ?thesis by auto
qed

end
